theory Spec2Isabelle
  imports Complex_Main "HOL-Library.Word" "HOL-Library.Monad_Syntax"
begin

unbundle bit_operations_syntax

section \<open>Terrain geometry of Urho3D (Engine/Graphics/Terrain.cpp)\<close>

text \<open>
  A shallow embedding of \<^verbatim>\<open>Terrain.cpp\<close>. C++ \<^verbatim>\<open>unsigned\<close> and \<^verbatim>\<open>int\<close> values are
  32-bit words (\<open>unat\<close> reads the unsigned value, \<open>sint\<close> the two's complement one; a
  conversion between the two keeps the bits). The type \<open>'f\<close> stands for \<^verbatim>\<open>float\<close>: it is a
  type parameter that carries only the syntax of the arithmetic operators, so that no law of
  the real numbers is assumed of it; the conversions and the library functions on floats
  are taken from a record of platform operations. A function returns \<open>None\<close> where the
  C++ execution has no defined result (a read outside an array, a division by zero, a
  null dereference, an allocation that throws, a loop that does not end).
\<close>

type_synonym u32 = "32 word"
type_synonym u16 = "16 word"
type_synonym u8 = "8 word"

subsection \<open>Constants\<close>

definition DEFAULT_PATCH_SIZE :: u32 where "DEFAULT_PATCH_SIZE = 16"
definition DEFAULT_LOD_LEVELS :: u32 where "DEFAULT_LOD_LEVELS = 3"
definition MAX_LOD_LEVELS :: u32 where "MAX_LOD_LEVELS = 4"
definition MIN_PATCH_SIZE :: u32 where "MIN_PATCH_SIZE = 4"
definition MAX_PATCH_SIZE :: u32 where "MAX_PATCH_SIZE = 128"

subsection \<open>Vectors and the platform\<close>

datatype 'f Vector2 = Vector2 (v2x: 'f) (v2y: 'f)
datatype 'f Vector3 = Vector3 (vx: 'f) (vy: 'f) (vz: 'f)
datatype IntVector2 = IntVector2 (ivx: u32) (ivy: u32)

text \<open>
  The platform: conversions between floats and integers, \<^verbatim>\<open>floorf\<close>, the literals
  \<^verbatim>\<open>0.5f\<close> and \<^verbatim>\<open>0.25f\<close>, \<^verbatim>\<open>Vector3::Normalized\<close>, the contents of memory that was allocated and not
  written, and whether \<^verbatim>\<open>Lock\<close> of a vertex buffer and of the index buffer returns a
  region to write to.
\<close>

record 'f Platform =
  of_unsigned :: "u32 \<Rightarrow> 'f"
  of_signed :: "u32 \<Rightarrow> 'f"
  of_uchar :: "u8 \<Rightarrow> 'f"
  to_unsigned :: "'f \<Rightarrow> u32"
  floorf :: "'f \<Rightarrow> 'f"
  half :: 'f
  quarter :: 'f
  Normalized :: "'f Vector3 \<Rightarrow> 'f Vector3"
  uninitialized :: 'f
  lockVertexBuffer :: bool
  lockIndexBuffer :: bool

text \<open>Modelled from the spec: the operators of \<^verbatim>\<open>Vector3\<close> (Vector3.h is missing), all
  componentwise; the dot product sums the three products from left to right.\<close>

definition vadd :: "('f::plus) Vector3 \<Rightarrow> 'f Vector3 \<Rightarrow> 'f Vector3" where
  "vadd a b = Vector3 (vx a + vx b) (vy a + vy b) (vz a + vz b)"

definition vsub :: "('f::minus) Vector3 \<Rightarrow> 'f Vector3 \<Rightarrow> 'f Vector3" where
  "vsub a b = Vector3 (vx a - vx b) (vy a - vy b) (vz a - vz b)"

definition vscale :: "('f::times) Vector3 \<Rightarrow> 'f \<Rightarrow> 'f Vector3" where
  "vscale a k = Vector3 (vx a * k) (vy a * k) (vz a * k)"

definition DotProduct :: "('f::{plus,times}) Vector3 \<Rightarrow> 'f Vector3 \<Rightarrow> 'f" where
  "DotProduct a b = vx a * vx b + vy a * vy b + vz a * vz b"

definition RIGHT :: "('f::{zero,one}) Vector3" where
  "RIGHT = Vector3 1 0 0"

text \<open>Modelled from the spec: \<^verbatim>\<open>BoundingBox\<close> (BoundingBox.h is missing). A box is
  undefined until a first point is merged into it; after that it is the componentwise
  minimum and maximum of the merged points.\<close>

datatype 'f BoundingBox = BoxUndefined | Box "'f Vector3" "'f Vector3"

definition fmin :: "('f::ord) \<Rightarrow> 'f \<Rightarrow> 'f" where
  "fmin a b = (if a < b then a else b)"

definition fmax :: "('f::ord) \<Rightarrow> 'f \<Rightarrow> 'f" where
  "fmax a b = (if a > b then a else b)"

fun Merge :: "('f::ord) BoundingBox \<Rightarrow> 'f Vector3 \<Rightarrow> 'f BoundingBox" where
  "Merge BoxUndefined p = Box p p"
| "Merge (Box lo hi) p =
     Box (Vector3 (fmin (vx p) (vx lo)) (fmin (vy p) (vy lo)) (fmin (vz p) (vz lo)))
         (Vector3 (fmax (vx p) (vx hi)) (fmax (vy p) (vy hi)) (fmax (vz p) (vz hi)))"

text \<open>Modelled from the spec: \<^verbatim>\<open>IsPowerOfTwo\<close> and \<^verbatim>\<open>Clamp\<close> (MathDefs.h is missing).
  \<^verbatim>\<open>Clamp\<close> is called on \<^verbatim>\<open>int\<close> arguments, so it compares the signed values.\<close>

definition IsPowerOfTwo :: "u32 \<Rightarrow> bool" where
  "IsPowerOfTwo v = (v \<in> set (map (\<lambda>k. 2 ^ k) [0..<32]))"

definition Clamp :: "u32 \<Rightarrow> u32 \<Rightarrow> u32 \<Rightarrow> u32" where
  "Clamp v lo hi = (if sint v < sint lo then lo else if sint v > sint hi then hi else v)"

subsection \<open>Images, patches, the scene node\<close>

text \<open>An image as the terrain reads it: \<^verbatim>\<open>GetWidth\<close>, \<^verbatim>\<open>GetHeight\<close>,
  \<^verbatim>\<open>GetComponents\<close>, \<^verbatim>\<open>IsCompressed\<close> and the bytes at \<^verbatim>\<open>GetData\<close>.\<close>

record Image =
  imgWidth :: u32
  imgHeight :: u32
  imgComponents :: u32
  imgCompressed :: bool
  imgData :: "u8 list"

datatype IndexBufferRef = SharedIndexBuffer

text \<open>The index buffer: its index count, the 16-bit indices written to it, and the number
  of \<^verbatim>\<open>Unlock\<close> calls, each of which commits a rewritten buffer.\<close>

record IndexBuffer =
  ibIndexCount :: u32
  ibData :: "u16 list"
  ibCommits :: nat

text \<open>A terrain patch: its grid coordinates, the drawable parameters copied from the
  terrain, its vertex buffer (vertex count and the floats written to it), bounding box,
  and its geometry (index buffer, draw range, CPU copy of the positions).\<close>

record 'f TerrainPatch =
  patchX :: u32
  patchZ :: u32
  patchHasOwner :: bool
  patchMaterial :: "nat option"
  patchDrawDistance :: 'f
  patchShadowDistance :: 'f
  patchLodBias :: 'f
  patchViewMask :: u32
  patchLightMask :: u32
  patchShadowMask :: u32
  patchZoneMask :: u32
  patchMaxLights :: u32
  patchVisible :: bool
  patchCastShadows :: bool
  patchOccluder :: bool
  patchOccludee :: bool
  vbVertexCount :: u32
  vbData :: "'f list"
  vbDataLost :: bool
  patchBoundingBox :: "'f BoundingBox"
  geomIndexBuffer :: "IndexBufferRef option"
  geomDrawRange :: "u32 \<times> u32"
  geomRawVertexData :: "'f list"
  patchDirty :: bool

text \<open>A child of the terrain's scene node: its name, its position, and the address of its
  \<^verbatim>\<open>TerrainPatch\<close> component when it has one.\<close>

record 'f ChildNode =
  childName :: string
  childPosition :: "'f Vector3"
  childPatch :: "nat option"

text \<open>The scene node: \<open>worldToLocal\<close> is \<^verbatim>\<open>GetWorldTransform().Inverse() * v\<close>.\<close>

record 'f Node =
  worldToLocal :: "'f Vector3 \<Rightarrow> 'f Vector3"
  worldScale :: "'f Vector3"
  worldPosition :: "'f Vector3"
  children :: "'f ChildNode list"

datatype Event = E_TERRAINCREATED

subsection \<open>The terrain\<close>

text \<open>
  The fields of \<^verbatim>\<open>Terrain\<close> (\<^verbatim>\<open>node_\<close> is \<open>node\<close> and so on: a name cannot end with an
  underscore here; \<^verbatim>\<open>size_\<close> is \<open>terrainSize\<close>), and the effects of its calls on other objects:
  \<open>patchObjects\<close> is the store of patch components (an address is an index, a destroyed
  component is \<open>None\<close>, so a weak pointer of \<open>patches_\<close> is live when its address holds
  a component), \<open>reloadSubscriptions\<close> the images whose reload event is subscribed to,
  \<open>networkUpdate\<close> what \<^verbatim>\<open>MarkNetworkUpdate\<close> sets, \<open>events\<close> the events sent from the
  node, \<open>errorLog\<close> the messages of \<^verbatim>\<open>LOGERROR\<close>.
\<close>

record 'f Terrain =
  node :: "'f Node option"
  indexBuffer :: IndexBuffer
  heightMap :: "Image option"
  heightData :: "'f list option"
  material :: "nat option"
  patches :: "nat list"
  patchObjects :: "'f TerrainPatch option list"
  patchSize :: u32
  spacing :: "'f Vector3"
  terrainSize :: IntVector2
  patchWorldSize :: "'f Vector2"
  patchWorldOrigin :: "'f Vector2"
  patchesX :: u32
  patchesZ :: u32
  numLodLevels :: u32
  visible :: bool
  castShadows :: bool
  occluder :: bool
  occludee :: bool
  viewMask :: u32
  lightMask :: u32
  shadowMask :: u32
  zoneMask :: u32
  drawDistance :: 'f
  shadowDistance :: 'f
  lodBias :: 'f
  maxLights :: u32
  recreateTerrain :: bool
  reloadSubscriptions :: "Image list"
  networkUpdate :: bool
  events :: "Event list"
  errorLog :: "string list"

definition MarkNetworkUpdate :: "'f Terrain \<Rightarrow> 'f Terrain" where
  "MarkNetworkUpdate s = s\<lparr>networkUpdate := True\<rparr>"

subsection \<open>Height queries\<close>

text \<open>\<^verbatim>\<open>Terrain::GetRawHeight\<close>. The index \<^verbatim>\<open>z * size_.x_ + x\<close> is computed in
  \<^verbatim>\<open>unsigned\<close>; a read outside the array is \<open>None\<close>.\<close>

definition GetRawHeight :: "('f::zero) Terrain \<Rightarrow> u32 \<Rightarrow> u32 \<Rightarrow> 'f option" where
  "GetRawHeight s x z =
     (case heightData s of
        None \<Rightarrow> Some 0
      | Some hs \<Rightarrow>
          (let x' = Clamp x 0 (ivx (terrainSize s) - 1);
               z' = Clamp z 0 (ivy (terrainSize s) - 1);
               i = unat (z' * ivx (terrainSize s) + x')
           in if i < length hs then Some (hs ! i) else None))"

text \<open>\<^verbatim>\<open>Terrain::GetNormal\<close>.\<close>

definition GetNormal ::
  "'f Platform \<Rightarrow> ('f::{zero,one,plus,minus,uminus}) Terrain \<Rightarrow> u32 \<Rightarrow> u32 \<Rightarrow> 'f Vector3 option"
where
  "GetNormal pf s x z = do {
     baseHeight \<leftarrow> GetRawHeight s x z;
     n \<leftarrow> GetRawHeight s x (z - 1);
     ne \<leftarrow> GetRawHeight s (x + 1) (z - 1);
     e \<leftarrow> GetRawHeight s (x + 1) z;
     se \<leftarrow> GetRawHeight s (x + 1) (z + 1);
     so \<leftarrow> GetRawHeight s x (z + 1);
     sw \<leftarrow> GetRawHeight s (x - 1) (z + 1);
     w \<leftarrow> GetRawHeight s (x - 1) z;
     nw \<leftarrow> GetRawHeight s (x - 1) (z - 1);
     let nSlope = n - baseHeight;
         neSlope = ne - baseHeight;
         eSlope = e - baseHeight;
         seSlope = se - baseHeight;
         sSlope = so - baseHeight;
         swSlope = sw - baseHeight;
         wSlope = w - baseHeight;
         nwSlope = nw - baseHeight
     in Some (Normalized pf
          (vadd (vadd (vadd (vadd (vadd (vadd (vadd
             (Vector3 0 1 nSlope)
             (Vector3 (- neSlope) 1 neSlope))
             (Vector3 (- eSlope) 1 0))
             (Vector3 (- seSlope) 1 (- seSlope)))
             (Vector3 0 1 (- sSlope)))
             (Vector3 swSlope 1 (- swSlope)))
             (Vector3 wSlope 1 0))
             (Vector3 nwSlope 1 nwSlope)))
   }"

text \<open>\<^verbatim>\<open>Terrain::GetHeight\<close>. It is a \<^verbatim>\<open>const\<close> member: it returns a value and no state.\<close>

definition GetHeight ::
  "'f Platform \<Rightarrow> ('f::{zero,one,plus,minus,times,inverse,ord}) Terrain \<Rightarrow> 'f Vector3 \<Rightarrow> 'f option"
where
  "GetHeight pf s worldPos =
     (case node s of
        Some nd \<Rightarrow> do {
          let position = worldToLocal nd worldPos;
          let xPos = (vx position - v2x (patchWorldOrigin s)) / vx (spacing s);
          let zPos = (vz position - v2y (patchWorldOrigin s)) / vz (spacing s);
          let xFrac = xPos - floorf pf xPos;
          let zFrac = zPos - floorf pf zPos;
          let ux = to_unsigned pf xPos;
          let uz = to_unsigned pf zPos;
          (h1, h2, h3, xFrac, zFrac) \<leftarrow>
            (if xFrac + zFrac \<ge> 1 then do {
               h1 \<leftarrow> GetRawHeight s (ux + 1) (uz + 1);
               h2 \<leftarrow> GetRawHeight s ux (uz + 1);
               h3 \<leftarrow> GetRawHeight s (ux + 1) uz;
               Some (h1, h2, h3, 1 - xFrac, 1 - zFrac)
             } else do {
               h1 \<leftarrow> GetRawHeight s ux uz;
               h2 \<leftarrow> GetRawHeight s (ux + 1) uz;
               h3 \<leftarrow> GetRawHeight s ux (uz + 1);
               Some (h1, h2, h3, xFrac, zFrac)
             });
          let h = h1 * (1 - xFrac - zFrac) + h2 * xFrac + h3 * zFrac;
          Some (vy (worldScale nd) * h + vy (worldPosition nd))
        }
      | None \<Rightarrow> Some 0)"


subsection \<open>Names of patch nodes\<close>

text \<open>Modelled from the spec: the string functions that \<^verbatim>\<open>CreateGeometry\<close> calls (Str.h
  and StringUtils.h are missing). \<^verbatim>\<open>String(unsigned)\<close> prints in decimal, \<^verbatim>\<open>ToUInt\<close>
  reads the leading decimal digits, \<^verbatim>\<open>Substring(6)\<close> drops six characters, \<^verbatim>\<open>Split\<close>
  cuts at the separator and yields the non-empty pieces; patch nodes are named
  \<^verbatim>\<open>Patch_<x>_<z>\<close>.\<close>

definition digitChar :: "nat \<Rightarrow> char" where
  "digitChar d = char_of (48 + d)"

fun decimal :: "nat \<Rightarrow> string" where
  "decimal n = (if n < 10 then [digitChar n] else decimal (n div 10) @ [digitChar (n mod 10)])"

definition String :: "u32 \<Rightarrow> string" where
  "String x = decimal (unat x)"

definition isDigit :: "char \<Rightarrow> bool" where
  "isDigit c = (48 \<le> (of_char c :: nat) \<and> (of_char c :: nat) \<le> 57)"

definition ToUInt :: "string \<Rightarrow> u32" where
  "ToUInt str = of_nat (foldl (\<lambda>acc c. acc * 10 + (of_char c - 48)) 0 (takeWhile isDigit str))"

definition Substring :: "string \<Rightarrow> nat \<Rightarrow> string" where
  "Substring str pos = drop pos str"

function Split :: "string \<Rightarrow> char \<Rightarrow> string list" where
  "Split str sep =
     (case dropWhile (\<lambda>c. c = sep) str of
        [] \<Rightarrow> []
      | c # cs \<Rightarrow> takeWhile (\<lambda>c. c \<noteq> sep) (c # cs) # Split (dropWhile (\<lambda>c. c \<noteq> sep) cs) sep)"
  by pat_completeness auto
termination
proof (relation "measure (\<lambda>(str, sep). length str)")
  show "wf (measure (\<lambda>(str, sep). length str))" by simp
next
  fix str :: string and sep c cs
  assume a: "dropWhile (\<lambda>c. c = sep) str = c # cs"
  have "length (dropWhile (\<lambda>c. c \<noteq> sep) cs) \<le> length cs"
    by (rule length_dropWhile_le)
  moreover have "length (c # cs) \<le> length str"
    using length_dropWhile_le [of "\<lambda>c. c = sep" str] a by simp
  ultimately show "((dropWhile (\<lambda>c. c \<noteq> sep) cs, sep), (str, sep)) \<in> measure (\<lambda>(str, sep). length str)"
    by simp
qed

declare decimal.simps [simp del] Split.simps [simp del]

definition patchNodeName :: "u32 \<Rightarrow> u32 \<Rightarrow> string" where
  "patchNodeName x z = ''Patch_'' @ String x @ ''_'' @ String z"

subsection \<open>Setters of drawable parameters\<close>

text \<open>The loop \<^verbatim>\<open>for (i < patches_.Size()) if (patches_[i]) patches_[i]->f()\<close>: a weak
  pointer whose patch was destroyed is skipped.\<close>

definition forEachPatch :: "('f TerrainPatch \<Rightarrow> 'f TerrainPatch) \<Rightarrow> 'f Terrain \<Rightarrow> 'f Terrain" where
  "forEachPatch f s =
     s\<lparr>patchObjects :=
         foldl (\<lambda>objs a. if a < length objs then objs[a := map_option f (objs ! a)] else objs)
           (patchObjects s) (patches s)\<rparr>"

definition SetVisible :: "'f Terrain \<Rightarrow> bool \<Rightarrow> 'f Terrain" where
  "SetVisible s enable =
     MarkNetworkUpdate (forEachPatch (\<lambda>p. p\<lparr>patchVisible := enable\<rparr>) (s\<lparr>visible := enable\<rparr>))"

definition SetCastShadows :: "'f Terrain \<Rightarrow> bool \<Rightarrow> 'f Terrain" where
  "SetCastShadows s enable =
     MarkNetworkUpdate (forEachPatch (\<lambda>p. p\<lparr>patchCastShadows := enable\<rparr>) (s\<lparr>castShadows := enable\<rparr>))"

definition SetOccluder :: "'f Terrain \<Rightarrow> bool \<Rightarrow> 'f Terrain" where
  "SetOccluder s enable =
     MarkNetworkUpdate (forEachPatch (\<lambda>p. p\<lparr>patchOccluder := enable\<rparr>) (s\<lparr>occluder := enable\<rparr>))"

text \<open>\<^verbatim>\<open>Terrain::SetOccludee\<close> assigns \<^verbatim>\<open>occluder_\<close>, as the source does.\<close>

definition SetOccludee :: "'f Terrain \<Rightarrow> bool \<Rightarrow> 'f Terrain" where
  "SetOccludee s enable =
     MarkNetworkUpdate (forEachPatch (\<lambda>p. p\<lparr>patchOccludee := enable\<rparr>) (s\<lparr>occluder := enable\<rparr>))"

subsection \<open>Patch geometry\<close>

text \<open>One iteration of the inner loop of \<^verbatim>\<open>UpdatePatchGeometry\<close>: the twelve floats of
  the vertex, and its position.\<close>

definition patchVertex ::
  "'f Platform \<Rightarrow> ('f::{zero,one,plus,minus,uminus,times,inverse,ord}) Terrain \<Rightarrow> u32 \<Rightarrow> u32 \<Rightarrow> u32 \<Rightarrow> u32
     \<Rightarrow> ('f list \<times> 'f Vector3) option"
where
  "patchVertex pf s x z x1 z1 = do {
     let xPos = x * patchSize s + x1;
     let zPos = z * patchSize s + z1;
     h \<leftarrow> GetRawHeight s xPos zPos;
     let position = Vector3 (of_unsigned pf x1 * vx (spacing s)) h (of_unsigned pf z1 * vz (spacing s));
     normal \<leftarrow> GetNormal pf s xPos zPos;
     let texCoord = Vector2 (of_signed pf xPos / of_signed pf (ivx (terrainSize s)))
                            (1 - of_signed pf zPos / of_signed pf (ivy (terrainSize s)));
     let xyz = Normalized pf (vsub RIGHT (vscale normal (DotProduct normal RIGHT)));
     Some ([vx position, vy position, vz position,
            vx normal, vy normal, vz normal,
            v2x texCoord, v2y texCoord,
            vx xyz, vy xyz, vz xyz, 1], position)
   }"

text \<open>The two loops, \<open>z1\<close> outside and \<open>x1\<close> inside, both from 0 to \<^verbatim>\<open>patchSize_\<close>
  inclusive.\<close>

definition patchVertices ::
  "'f Platform \<Rightarrow> ('f::{zero,one,plus,minus,uminus,times,inverse,ord}) Terrain \<Rightarrow> u32 \<Rightarrow> u32
     \<Rightarrow> ('f list \<times> 'f Vector3) list option"
where
  "patchVertices pf s x z =
     those (concat (map (\<lambda>z1. map (\<lambda>x1. patchVertex pf s x z (of_nat x1) (of_nat z1))
                                  [0..<unat (patchSize s) + 1])
                        [0..<unat (patchSize s) + 1]))"

text \<open>\<^verbatim>\<open>Terrain::UpdatePatchGeometry\<close>: first what it does to the patch object, then
  the call on the patch at address \<open>a\<close> of the store (a destroyed patch is a null
  pointer). \<^verbatim>\<open>SetSize\<close> gives the buffer a new, unwritten store. When the lock succeeds
  the loops write \<open>(patchSize_ + 1)\<^sup>2\<close> vertices; there is no defined result when the
  buffer holds fewer. When it fails the box stays undefined and the CPU copy of the
  positions unwritten.\<close>

definition patchGeometry ::
  "'f Platform \<Rightarrow> ('f::{zero,one,plus,minus,uminus,times,inverse,ord}) Terrain \<Rightarrow> 'f TerrainPatch
     \<Rightarrow> 'f TerrainPatch option"
where
  "patchGeometry pf s patch = do {
     let vertexDataRow = patchSize s + 1;
     let patch = (if vbVertexCount patch \<noteq> vertexDataRow * vertexDataRow
                  then patch\<lparr>vbVertexCount := vertexDataRow * vertexDataRow, vbData := []\<rparr>
                  else patch);
     (patch, box, positionData) \<leftarrow>
       (if lockVertexBuffer pf then
          (if (unat (patchSize s) + 1) * (unat (patchSize s) + 1) \<le> unat (vbVertexCount patch)
           then do {
             vs \<leftarrow> patchVertices pf s (patchX patch) (patchZ patch);
             Some (patch\<lparr>vbData := concat (map fst vs), vbDataLost := False\<rparr>,
                   foldl Merge BoxUndefined (map snd vs),
                   concat (map (\<lambda>v. [vx (snd v), vy (snd v), vz (snd v)]) vs))
           } else None)
        else Some (patch, BoxUndefined, []));
     Some (patch\<lparr>patchBoundingBox := box,
                 geomIndexBuffer := Some SharedIndexBuffer,
                 geomDrawRange := (0, ibIndexCount (indexBuffer s)),
                 geomRawVertexData := positionData,
                 patchDirty := True\<rparr>)
   }"

definition UpdatePatchGeometry ::
  "'f Platform \<Rightarrow> ('f::{zero,one,plus,minus,uminus,times,inverse,ord}) Terrain \<Rightarrow> nat \<Rightarrow> 'f Terrain option"
where
  "UpdatePatchGeometry pf s a =
     (if a < length (patchObjects s) then
        (case patchObjects s ! a of
           None \<Rightarrow> None
         | Some patch \<Rightarrow>
             map_option (\<lambda>patch'. s\<lparr>patchObjects := (patchObjects s)[a := Some patch']\<rparr>)
               (patchGeometry pf s patch))
      else None)"

text \<open>\<^verbatim>\<open>Terrain::UpdatePatchLOD\<close> has an empty body.\<close>

definition UpdatePatchLOD :: "'f Terrain \<Rightarrow> nat \<Rightarrow> u32 \<Rightarrow> u32 \<Rightarrow> u32 \<Rightarrow> u32 \<Rightarrow> u32 \<Rightarrow> 'f Terrain" where
  "UpdatePatchLOD s a lod northLod southLod westLod eastLod = s"


subsection \<open>Rebuilding the terrain\<close>

primrec foldM :: "('s \<Rightarrow> 'a \<Rightarrow> 's option) \<Rightarrow> 's \<Rightarrow> 'a list \<Rightarrow> 's option" where
  "foldM f s [] = Some s"
| "foldM f s (x # xs) = Option.bind (f s x) (\<lambda>s'. foldM f s' xs)"

text \<open>The loop that determines the number of LOD levels.\<close>

function lodLoop :: "u32 \<Rightarrow> u32 \<Rightarrow> u32" where
  "lodLoop lodSize n =
     (if lodSize > MIN_PATCH_SIZE \<and> n < MAX_LOD_LEVELS then lodLoop (drop_bit 1 lodSize) (n + 1) else n)"
  by pat_completeness auto
termination
proof (relation "measure (\<lambda>(lodSize, n). unat (MAX_LOD_LEVELS - n))")
  show "wf (measure (\<lambda>(lodSize, n). unat (MAX_LOD_LEVELS - n)))" by simp
next
  fix lodSize n :: u32
  assume "MIN_PATCH_SIZE < lodSize \<and> n < MAX_LOD_LEVELS"
  then have "n < 4" by (simp add: MAX_LOD_LEVELS_def)
  then have "unat (4 - (n + 1)) < unat (4 - n)" by unat_arith
  then show "((drop_bit 1 lodSize, n + 1), (lodSize, n)) \<in> measure (\<lambda>(lodSize, n). unat (MAX_LOD_LEVELS - n))"
    by (simp add: MAX_LOD_LEVELS_def)
qed

declare lodLoop.simps [simp del]

text \<open>"Determine total terrain size". The division traps when \<^verbatim>\<open>patchSize_\<close> is 0.
  \<^verbatim>\<open>new float[size_.x_ * size_.y_]\<close> multiplies two \<^verbatim>\<open>int\<close>s: there is no defined result
  when the product overflows, and the allocation throws when it is negative.\<close>

definition layoutTerrain ::
  "'f Platform \<Rightarrow> ('f::{zero,uminus,times}) Terrain \<Rightarrow> 'f Terrain option"
where
  "layoutTerrain pf s =
     (case heightMap s of
        Some img \<Rightarrow>
          (if patchSize s = 0 then None
           else
             (let px = (imgWidth img - 1) div patchSize s;
                  pz = (imgHeight img - 1) div patchSize s;
                  sz = IntVector2 (px * patchSize s + 1) (pz * patchSize s + 1);
                  origin = Vector2 ((- half pf) * of_unsigned pf px * v2x (patchWorldSize s))
                                   ((- half pf) * of_unsigned pf pz * v2y (patchWorldSize s));
                  n = sint (ivx sz) * sint (ivy sz)
              in if 0 \<le> n \<and> n < 2 ^ 31
                 then Some (s\<lparr>patchesX := px, patchesZ := pz, terrainSize := sz,
                              patchWorldOrigin := origin,
                              heightData := Some (replicate (nat n) (uninitialized pf))\<rparr>)
                 else None))
      | None \<Rightarrow>
          Some (s\<lparr>patchesX := 0, patchesZ := 0, terrainSize := IntVector2 0 0,
                   patchWorldOrigin := Vector2 0 0, heightData := None\<rparr>))"

text \<open>"Remove old patch nodes which are not needed": a child with a \<^verbatim>\<open>TerrainPatch\<close>
  component stays when its name, after the first six characters, splits into two
  numbers inside the new patch grid. Modelled from the spec: \<^verbatim>\<open>RemoveChild\<close> (Node.h is
  missing) destroys the removed child together with its patch component.\<close>

definition patchNodeOk :: "'f Terrain \<Rightarrow> string \<Rightarrow> bool" where
  "patchNodeOk s name =
     (let coords = Split (Substring name 6) (CHR ''_'')
      in if length coords = 2
         then (let x = ToUInt (coords ! 0); z = ToUInt (coords ! 1)
               in x < patchesX s \<and> z < patchesZ s)
         else False)"

definition removeOldPatchNodes :: "'f Terrain \<Rightarrow> 'f Terrain" where
  "removeOldPatchNodes s =
     (case node s of
        None \<Rightarrow> s
      | Some nd \<Rightarrow>
          (let removed = filter (\<lambda>c. childPatch c \<noteq> None \<and> \<not> patchNodeOk s (childName c)) (children nd)
           in s\<lparr>node := Some (nd\<lparr>children :=
                    filter (\<lambda>c. \<not> (childPatch c \<noteq> None \<and> \<not> patchNodeOk s (childName c))) (children nd)\<rparr>),
                patchObjects :=
                  foldl (\<lambda>objs c. case childPatch c of None \<Rightarrow> objs | Some a \<Rightarrow> objs[a := None])
                    (patchObjects s) removed\<rparr>))"

text \<open>"Copy heightmap data": the first component of each pixel, the rows of the image
  taken from the last one, times the vertical spacing. The index into the image data is
  computed in \<^verbatim>\<open>unsigned\<close>; a read outside the data, or a write outside the allocated
  height array, has no defined result.\<close>

definition heightSample :: "'f Platform \<Rightarrow> ('f::times) Terrain \<Rightarrow> Image \<Rightarrow> nat \<Rightarrow> nat \<Rightarrow> 'f option" where
  "heightSample pf s img x z =
     (let imgComps = imgComponents img;
          imgRow = imgWidth img * imgComps;
          i = unat (imgRow * (ivy (terrainSize s) - 1 - of_nat z) + imgComps * of_nat x)
      in if i < length (imgData img)
         then Some (of_uchar pf (imgData img ! i) * vy (spacing s))
         else None)"

definition copyHeightData :: "'f Platform \<Rightarrow> ('f::times) Terrain \<Rightarrow> Image \<Rightarrow> 'f Terrain option" where
  "copyHeightData pf s img = do {
     vals \<leftarrow> those (concat (map (\<lambda>z. map (\<lambda>x. heightSample pf s img x z)
                                           [0..<nat (sint (ivx (terrainSize s)))])
                                 [0..<nat (sint (ivy (terrainSize s)))]));
     (case heightData s of
        None \<Rightarrow> None
      | Some dest \<Rightarrow>
          if length vals \<le> length dest
          then Some (s\<lparr>heightData := Some (vals @ drop (length vals) dest)\<rparr>)
          else None)
   }"

text \<open>Modelled from the spec: a \<^verbatim>\<open>TerrainPatch\<close> as its constructor leaves it
  (TerrainPatch.cpp is missing): an empty vertex buffer, an undefined bounding box, no
  index buffer.\<close>

definition newTerrainPatch :: "('f::zero) TerrainPatch" where
  "newTerrainPatch =
     \<lparr>patchX = 0, patchZ = 0, patchHasOwner = False, patchMaterial = None,
      patchDrawDistance = 0, patchShadowDistance = 0, patchLodBias = 0,
      patchViewMask = 0, patchLightMask = 0, patchShadowMask = 0, patchZoneMask = 0,
      patchMaxLights = 0, patchVisible = False, patchCastShadows = False,
      patchOccluder = False, patchOccludee = False,
      vbVertexCount = 0, vbData = [], vbDataLost = False,
      patchBoundingBox = BoxUndefined, geomIndexBuffer = None, geomDrawRange = (0, 0),
      geomRawVertexData = [], patchDirty = False\<rparr>"

text \<open>Modelled from the spec: \<^verbatim>\<open>Node::GetChild(name)\<close> (Node.h is missing) finds the
  first child of that name; the result is its position among the children.\<close>

fun GetChild :: "'f ChildNode list \<Rightarrow> string \<Rightarrow> nat option" where
  "GetChild [] name = None"
| "GetChild (c # cs) name =
     (if childName c = name then Some 0 else map_option Suc (GetChild cs name))"

text \<open>The body of the loop "Create patches and set node transforms", for the patch
  \<open>(x, z)\<close>: find or create the child node, place it, find or create its patch component,
  copy the coordinates and the drawable parameters, push a weak pointer.\<close>

definition patchPosition :: "'f Platform \<Rightarrow> ('f::{zero,plus,times}) Terrain \<Rightarrow> u32 \<Rightarrow> u32 \<Rightarrow> 'f Vector3" where
  "patchPosition pf s x z =
     Vector3 (v2x (patchWorldOrigin s) + of_unsigned pf x * v2x (patchWorldSize s))
             0
             (v2y (patchWorldOrigin s) + of_unsigned pf z * v2y (patchWorldSize s))"

definition configurePatch :: "'f Terrain \<Rightarrow> u32 \<Rightarrow> u32 \<Rightarrow> 'f TerrainPatch \<Rightarrow> 'f TerrainPatch" where
  "configurePatch s x z patch =
     patch\<lparr>patchX := x, patchZ := z, patchHasOwner := True,
           patchMaterial := material s,
           patchDrawDistance := drawDistance s,
           patchShadowDistance := shadowDistance s,
           patchLodBias := lodBias s,
           patchViewMask := viewMask s,
           patchLightMask := lightMask s,
           patchShadowMask := shadowMask s,
           patchZoneMask := zoneMask s,
           patchMaxLights := maxLights s,
           patchVisible := visible s,
           patchCastShadows := castShadows s,
           patchOccluder := occluder s,
           patchOccludee := occludee s\<rparr>"

definition createPatch ::
  "'f Platform \<Rightarrow> ('f::{zero,plus,times}) Terrain \<Rightarrow> (u32 \<times> u32) \<Rightarrow> 'f Terrain option"
where
  "createPatch pf s xz =
     (case node s of
        None \<Rightarrow> None
      | Some nd \<Rightarrow>
          (let x = fst xz; z = snd xz;
               nodeName = patchNodeName x z;
               (cs, i) = (case GetChild (children nd) nodeName of
                            Some i \<Rightarrow> (children nd, i)
                          | None \<Rightarrow> (children nd @ [\<lparr>childName = nodeName,
                                                       childPosition = Vector3 0 0 0,
                                                       childPatch = None\<rparr>],
                                     length (children nd)));
               cs = cs[i := (cs ! i)\<lparr>childPosition := patchPosition pf s x z\<rparr>];
               (objs, a) = (case childPatch (cs ! i) of
                              Some a \<Rightarrow> (patchObjects s, a)
                            | None \<Rightarrow> (patchObjects s @ [Some newTerrainPatch], length (patchObjects s)));
               cs = cs[i := (cs ! i)\<lparr>childPatch := Some a\<rparr>]
           in if a < length objs then
                (case objs ! a of
                   None \<Rightarrow> None
                 | Some patch \<Rightarrow>
                     Some (s\<lparr>node := Some (nd\<lparr>children := cs\<rparr>),
                             patchObjects := objs[a := Some (configurePatch s x z patch)],
                             patches := patches s @ [a]\<rparr>))
              else None))"

definition patchCoords :: "'f Terrain \<Rightarrow> (u32 \<times> u32) list" where
  "patchCoords s =
     concat (map (\<lambda>z. map (\<lambda>x. (of_nat x, of_nat z)) [0..<unat (patchesX s)])
                 [0..<unat (patchesZ s)])"

definition createPatches ::
  "'f Platform \<Rightarrow> ('f::{zero,plus,times}) Terrain \<Rightarrow> 'f Terrain option"
where
  "createPatches pf s = foldM (createPatch pf) s (patchCoords s)"

text \<open>"Create the shared index data": the six indices of the cell \<open>(x, z)\<close>, each
  truncated to \<^verbatim>\<open>unsigned short\<close>, and the two loops over the cells. \<^verbatim>\<open>SetSize\<close> gives the
  buffer a new, unwritten store of \<^verbatim>\<open>patchSize_ * patchSize_ * 6\<close> indices; there is no
  defined result when the loops write more than that.\<close>

definition cellIndices :: "u32 \<Rightarrow> u32 \<Rightarrow> u32 \<Rightarrow> u16 list" where
  "cellIndices vertexDataRow x z =
     [ucast (x + (z + 1) * vertexDataRow),
      ucast (x + z * vertexDataRow + 1),
      ucast (x + z * vertexDataRow),
      ucast (x + (z + 1) * vertexDataRow),
      ucast (x + (z + 1) * vertexDataRow + 1),
      ucast (x + z * vertexDataRow + 1)]"

definition indexData :: "u32 \<Rightarrow> u16 list" where
  "indexData p =
     concat (map (\<lambda>z. concat (map (\<lambda>x. cellIndices (p + 1) (of_nat x) (of_nat z)) [0..<unat p]))
                 [0..<unat p])"

definition createIndexData :: "'f Platform \<Rightarrow> 'f Terrain \<Rightarrow> 'f Terrain option" where
  "createIndexData pf s =
     (let ib = (indexBuffer s)\<lparr>ibIndexCount := patchSize s * patchSize s * 6, ibData := []\<rparr>
      in if lockIndexBuffer pf then
           (if unat (patchSize s) * unat (patchSize s) * 6 \<le> unat (ibIndexCount ib)
            then Some (s\<lparr>indexBuffer := ib\<lparr>ibData := indexData (patchSize s),
                                             ibCommits := ibCommits ib + 1\<rparr>\<rparr>)
            else None)
         else Some (s\<lparr>indexBuffer := ib\<rparr>))"

text \<open>\<^verbatim>\<open>Terrain::CreateGeometry\<close>.\<close>

definition CreateGeometry ::
  "'f Platform \<Rightarrow> ('f::{zero,one,plus,minus,uminus,times,inverse,ord}) Terrain \<Rightarrow> 'f Terrain option"
where
  "CreateGeometry pf s0 =
     (let s = s0\<lparr>recreateTerrain := False\<rparr>
      in case node s of
           None \<Rightarrow> Some s
         | Some nd \<Rightarrow> do {
             let prevNumPatches = length (patches s);
             let s = s\<lparr>numLodLevels := lodLoop (patchSize s) 1\<rparr>;
             let s = s\<lparr>patchWorldSize := Vector2 (vx (spacing s) * of_unsigned pf (patchSize s))
                                                (vz (spacing s) * of_unsigned pf (patchSize s))\<rparr>;
             s \<leftarrow> layoutTerrain pf s;
             let s = removeOldPatchNodes s;
             let s = s\<lparr>patches := []\<rparr>;
             s \<leftarrow> (case heightMap s of
                     Some img \<Rightarrow> do {
                       s \<leftarrow> copyHeightData pf s img;
                       s \<leftarrow> createPatches pf s;
                       s \<leftarrow> createIndexData pf s;
                       foldM (UpdatePatchGeometry pf) s (patches s)
                     }
                   | None \<Rightarrow> Some s);
             Some (if patches s \<noteq> [] \<or> prevNumPatches \<noteq> 0
                   then s\<lparr>events := events s @ [E_TERRAINCREATED]\<rparr>
                   else s)
           })"

subsection \<open>Configuration\<close>

text \<open>\<^verbatim>\<open>Terrain::ApplyAttributes\<close> and \<^verbatim>\<open>Terrain::HandleHeightMapReloadFinished\<close>.\<close>

definition ApplyAttributes ::
  "'f Platform \<Rightarrow> ('f::{zero,one,plus,minus,uminus,times,inverse,ord}) Terrain \<Rightarrow> 'f Terrain option"
where
  "ApplyAttributes pf s =
     (if recreateTerrain s
      then map_option (\<lambda>s. s\<lparr>recreateTerrain := False\<rparr>) (CreateGeometry pf s)
      else Some s)"

definition HandleHeightMapReloadFinished ::
  "'f Platform \<Rightarrow> ('f::{zero,one,plus,minus,uminus,times,inverse,ord}) Terrain \<Rightarrow> 'f Terrain option"
where
  "HandleHeightMapReloadFinished pf s = CreateGeometry pf s"

text \<open>\<^verbatim>\<open>Terrain::SetPatchSize\<close> and \<^verbatim>\<open>Terrain::SetPatchSizeAttr\<close>.\<close>

definition SetPatchSize ::
  "'f Platform \<Rightarrow> ('f::{zero,one,plus,minus,uminus,times,inverse,ord}) Terrain \<Rightarrow> u32 \<Rightarrow> 'f Terrain option"
where
  "SetPatchSize pf s sz =
     (if sz < MIN_PATCH_SIZE \<or> sz > MAX_PATCH_SIZE \<or> \<not> IsPowerOfTwo sz then Some s
      else if sz \<noteq> patchSize s
      then map_option MarkNetworkUpdate (CreateGeometry pf (s\<lparr>patchSize := sz\<rparr>))
      else Some s)"

definition SetPatchSizeAttr :: "'f Terrain \<Rightarrow> u32 \<Rightarrow> 'f Terrain" where
  "SetPatchSizeAttr s v =
     (if v < MIN_PATCH_SIZE \<or> v > MAX_PATCH_SIZE \<or> \<not> IsPowerOfTwo v then s
      else if v \<noteq> patchSize s
      then s\<lparr>patchSize := v, recreateTerrain := True\<rparr>
      else s)"

text \<open>\<^verbatim>\<open>Terrain::SetHeightMapInternal\<close>: the result is the returned flag and the new
  state. A null image is \<open>None\<close>; the parameter \<^verbatim>\<open>image\<close> is \<open>newImage\<close>.\<close>

definition SetHeightMapInternal ::
  "'f Platform \<Rightarrow> ('f::{zero,one,plus,minus,uminus,times,inverse,ord}) Terrain \<Rightarrow> Image option \<Rightarrow> bool
     \<Rightarrow> (bool \<times> 'f Terrain) option"
where
  "SetHeightMapInternal pf s newImage recreateNow =
     (if (case newImage of None \<Rightarrow> False | Some img \<Rightarrow> imgCompressed img)
      then Some (False, s\<lparr>errorLog := errorLog s @ [''Can not use a compressed image as a terrain heightmap'']\<rparr>)
      else
        (let s = (case heightMap s of
                    None \<Rightarrow> s
                  | Some old \<Rightarrow> s\<lparr>reloadSubscriptions := removeAll old (reloadSubscriptions s)\<rparr>);
             s = (case newImage of
                    None \<Rightarrow> s
                  | Some img \<Rightarrow> s\<lparr>reloadSubscriptions := List.insert img (reloadSubscriptions s)\<rparr>);
             s = s\<lparr>heightMap := newImage\<rparr>
         in if recreateNow
            then map_option (Pair True) (CreateGeometry pf s)
            else Some (True, s\<lparr>recreateTerrain := True\<rparr>)))"

text \<open>\<^verbatim>\<open>Terrain::SetHeightMap\<close> and \<^verbatim>\<open>Terrain::SetHeightMapAttr\<close> (the image is the one
  the resource cache returns).\<close>

definition SetHeightMap ::
  "'f Platform \<Rightarrow> ('f::{zero,one,plus,minus,uminus,times,inverse,ord}) Terrain \<Rightarrow> Image option
     \<Rightarrow> (bool \<times> 'f Terrain) option"
where
  "SetHeightMap pf s newImage =
     map_option (\<lambda>(success, s). (success, MarkNetworkUpdate s)) (SetHeightMapInternal pf s newImage True)"

definition SetHeightMapAttr ::
  "'f Platform \<Rightarrow> ('f::{zero,one,plus,minus,uminus,times,inverse,ord}) Terrain \<Rightarrow> Image option
     \<Rightarrow> 'f Terrain option"
where
  "SetHeightMapAttr pf s newImage = map_option snd (SetHeightMapInternal pf s newImage False)"


text \<open>\<^verbatim>\<open>Terrain::Terrain\<close>: the state the constructor leaves. The four default masks are
  constants of Drawable.h, which is missing; they are parameters.\<close>

definition newTerrain :: "'f Platform \<Rightarrow> u32 \<Rightarrow> u32 \<Rightarrow> u32 \<Rightarrow> u32 \<Rightarrow> ('f::{zero,one}) Terrain" where
  "newTerrain pf DEFAULT_VIEWMASK DEFAULT_LIGHTMASK DEFAULT_SHADOWMASK DEFAULT_ZONEMASK =
     \<lparr>node = None,
      indexBuffer = \<lparr>ibIndexCount = 0, ibData = [], ibCommits = 0\<rparr>,
      heightMap = None, heightData = None, material = None,
      patches = [], patchObjects = [],
      patchSize = DEFAULT_PATCH_SIZE,
      spacing = Vector3 1 (quarter pf) 1,
      terrainSize = IntVector2 0 0,
      patchWorldSize = Vector2 0 0,
      patchWorldOrigin = Vector2 0 0,
      patchesX = 0, patchesZ = 0,
      numLodLevels = DEFAULT_LOD_LEVELS,
      visible = True, castShadows = False, occluder = False, occludee = True,
      viewMask = DEFAULT_VIEWMASK, lightMask = DEFAULT_LIGHTMASK,
      shadowMask = DEFAULT_SHADOWMASK, zoneMask = DEFAULT_ZONEMASK,
      drawDistance = 0, shadowDistance = 0, lodBias = 1, maxLights = 0,
      recreateTerrain = False,
      reloadSubscriptions = [], networkUpdate = False, events = [], errorLog = []\<rparr>"

section \<open>Well-formed inputs and states\<close>

text \<open>A patch size that the setters accept.\<close>

definition validPatchSize :: "u32 \<Rightarrow> bool" where
  "validPatchSize p = (MIN_PATCH_SIZE \<le> p \<and> p \<le> MAX_PATCH_SIZE \<and> IsPowerOfTwo p)"

text \<open>An image with at least one pixel and one component, whose data holds
  \<open>width * height * components\<close> bytes, a number that fits an \<^verbatim>\<open>int\<close>.\<close>

definition wellFormedImage :: "Image \<Rightarrow> bool" where
  "wellFormedImage img =
     (1 \<le> unat (imgWidth img) \<and> 1 \<le> unat (imgHeight img) \<and> 1 \<le> unat (imgComponents img) \<and>
      unat (imgWidth img) * unat (imgHeight img) * unat (imgComponents img) < 2 ^ 31 \<and>
      length (imgData img) = unat (imgWidth img) * unat (imgHeight img) * unat (imgComponents img))"

text \<open>The height field and the stored grid size agree: when a field is built, both
  dimensions are positive and the array holds one height per grid point.\<close>

definition heightFieldOk :: "'f Terrain \<Rightarrow> bool" where
  "heightFieldOk s =
     (case heightData s of
        None \<Rightarrow> True
      | Some hs \<Rightarrow>
          1 \<le> sint (ivx (terrainSize s)) \<and> 1 \<le> sint (ivy (terrainSize s)) \<and>
          sint (ivx (terrainSize s)) * sint (ivy (terrainSize s)) < 2 ^ 31 \<and>
          int (length hs) = sint (ivx (terrainSize s)) * sint (ivy (terrainSize s)))"

text \<open>The children of the scene node own their patch components: no two children share
  one, and each one is in the store.\<close>

definition componentAddresses :: "'f ChildNode list \<Rightarrow> nat list" where
  "componentAddresses cs = concat (map (\<lambda>c. case childPatch c of None \<Rightarrow> [] | Some a \<Rightarrow> [a]) cs)"

definition sceneConsistent :: "'f Terrain \<Rightarrow> bool" where
  "sceneConsistent s =
     (case node s of
        None \<Rightarrow> True
      | Some nd \<Rightarrow>
          distinct (componentAddresses (children nd)) \<and>
          list_all (\<lambda>a. a < length (patchObjects s) \<and> patchObjects s ! a \<noteq> None)
            (componentAddresses (children nd)))"

text \<open>The patch \<open>(x, z)\<close> is in place at address \<open>a\<close>: the scene node has a child of the
  patch's name, at the patch's position, whose component is the live patch at \<open>a\<close>, and
  that patch has the coordinates and the drawable parameters of the terrain.\<close>

definition patchPlaced :: "'f Platform \<Rightarrow> ('f::{zero,plus,times}) Terrain \<Rightarrow> u32 \<times> u32 \<Rightarrow> nat \<Rightarrow> bool" where
  "patchPlaced pf s xz a =
     (case node s of
        None \<Rightarrow> False
      | Some nd \<Rightarrow>
          (case GetChild (children nd) (patchNodeName (fst xz) (snd xz)) of
             None \<Rightarrow> False
           | Some i \<Rightarrow>
               childPatch (children nd ! i) = Some a \<and>
               childPosition (children nd ! i) = patchPosition pf s (fst xz) (snd xz) \<and>
               a < length (patchObjects s) \<and>
               (case patchObjects s ! a of
                  None \<Rightarrow> False
                | Some patch \<Rightarrow> configurePatch s (fst xz) (snd xz) patch = patch)))"

text \<open>Every child that has a patch component has a name that the removal of old patch
  nodes keeps.\<close>

definition patchNodesKept :: "'f Terrain \<Rightarrow> bool" where
  "patchNodesKept s =
     (case node s of
        None \<Rightarrow> True
      | Some nd \<Rightarrow> list_all (\<lambda>c. childPatch c = None \<or> patchNodeOk s (childName c)) (children nd))"

text \<open>A terrain that a rebuild pass can run on: a consistent scene and, when there is a
  height map, a valid patch size and a well-formed image.\<close>

definition rebuildable :: "'f Terrain \<Rightarrow> bool" where
  "rebuildable s =
     (sceneConsistent s \<and>
      (case heightMap s of
         None \<Rightarrow> True
       | Some img \<Rightarrow> validPatchSize (patchSize s) \<and> wellFormedImage img))"

section \<open>The specification's operations\<close>

text \<open>From the spec, \<open>SampleRaw(x, z)\<close>: "integer grid lookup; clamps both coordinates
  independently to \<open>[0, dim-1]\<close>; returns 0 if no field is built". The coordinates are
  integers, the grid is stored row by row.\<close>

definition clampInt :: "int \<Rightarrow> int \<Rightarrow> int \<Rightarrow> int" where
  "clampInt v lo hi = max lo (min hi v)"

definition SampleRaw :: "('f::zero) Terrain \<Rightarrow> int \<Rightarrow> int \<Rightarrow> 'f" where
  "SampleRaw s x z =
     (case heightData s of
        None \<Rightarrow> 0
      | Some hs \<Rightarrow>
          hs ! nat (clampInt z 0 (sint (ivy (terrainSize s)) - 1) * sint (ivx (terrainSize s))
                    + clampInt x 0 (sint (ivx (terrainSize s)) - 1)))"

text \<open>From the spec, \<open>EstimateNormal(x, z)\<close>: "computes eight neighbor height deltas (N,
  NE, E, SE, S, SW, W, NW) relative to the center sample, forms eight slope vectors per
  compass direction, sums and normalizes". A compass direction is a step \<open>(dx, dz)\<close> on
  the grid, north being \<open>z - 1\<close> and east \<open>x + 1\<close>; the slope vector of a neighbour
  leans against its step by the height delta and has the Y component 1.\<close>

definition compass :: "(int \<times> int) list" where
  "compass = [(0, -1), (1, -1), (1, 0), (1, 1), (0, 1), (-1, 1), (-1, 0), (-1, -1)]"

definition lean :: "int \<Rightarrow> ('f::{zero,uminus}) \<Rightarrow> 'f" where
  "lean d delta = (if d = 0 then 0 else if 0 < d then - delta else delta)"

definition slopeVector :: "int \<times> int \<Rightarrow> ('f::{zero,one,uminus}) \<Rightarrow> 'f Vector3" where
  "slopeVector dir delta = Vector3 (lean (fst dir) delta) 1 (lean (snd dir) delta)"

definition EstimateNormal ::
  "'f Platform \<Rightarrow> ('f::{zero,one,plus,minus,uminus}) Terrain \<Rightarrow> u32 \<Rightarrow> u32 \<Rightarrow> 'f Vector3 option"
where
  "EstimateNormal pf s x z = do {
     center \<leftarrow> GetRawHeight s x z;
     neighbours \<leftarrow> those (map (\<lambda>dir. GetRawHeight s (x + of_int (fst dir)) (z + of_int (snd dir))) compass);
     let slopes = map (\<lambda>(dir, h). slopeVector dir (h - center)) (zip compass neighbours);
     Some (Normalized pf (foldl vadd (hd slopes) (tl slopes)))
   }"

text \<open>From the spec, \<open>QueryHeight(worldPosition)\<close>: 0 if detached; otherwise the point in
  the local frame, its fractional grid coordinates, the triangle of the cell chosen by
  comparing the sum of the fractional parts to 1, the three corner heights blended with
  the weights \<open>(1 - a - b, a, b)\<close>, and the frame's vertical scale and offset applied.\<close>

definition QueryHeight ::
  "'f Platform \<Rightarrow> ('f::{zero,one,plus,minus,times,inverse,ord}) Terrain \<Rightarrow> 'f Vector3 \<Rightarrow> 'f option"
where
  "QueryHeight pf s worldPos =
     (case node s of
        None \<Rightarrow> Some 0
      | Some frame \<Rightarrow>
          (let local = worldToLocal frame worldPos;
               gridX = (vx local - v2x (patchWorldOrigin s)) / vx (spacing s);
               gridZ = (vz local - v2y (patchWorldOrigin s)) / vz (spacing s);
               fracX = gridX - floorf pf gridX;
               fracZ = gridZ - floorf pf gridZ;
               cellX = to_unsigned pf gridX;
               cellZ = to_unsigned pf gridZ;
               upper = (fracX + fracZ \<ge> 1);
               corners = (if upper
                          then [(cellX + 1, cellZ + 1), (cellX, cellZ + 1), (cellX + 1, cellZ)]
                          else [(cellX, cellZ), (cellX + 1, cellZ), (cellX, cellZ + 1)]);
               a = (if upper then 1 - fracX else fracX);
               b = (if upper then 1 - fracZ else fracZ)
           in case those (map (\<lambda>c. GetRawHeight s (fst c) (snd c)) corners) of
                None \<Rightarrow> None
              | Some hs \<Rightarrow>
                  Some (vy (worldScale frame) * (hs ! 0 * (1 - a - b) + hs ! 1 * a + hs ! 2 * b)
                        + vy (worldPosition frame))))"

text \<open>From the same sentence of the spec, the normal as a function of the samples alone:
  the center and its eight neighbours are read with \<open>SampleRaw\<close> at integer coordinates.\<close>

definition SampleNormal ::
  "'f Platform \<Rightarrow> ('f::{zero,one,plus,minus,uminus}) Terrain \<Rightarrow> int \<Rightarrow> int \<Rightarrow> 'f Vector3"
where
  "SampleNormal pf s x z =
     (let center = SampleRaw s x z;
          slopes = map (\<lambda>dir. slopeVector dir (SampleRaw s (x + fst dir) (z + snd dir) - center)) compass
      in Normalized pf (foldl vadd (hd slopes) (tl slopes)))"

section \<open>An example terrain\<close>

text \<open>A platform whose floats are the real numbers and whose cast to \<^verbatim>\<open>unsigned\<close>
  truncates toward zero, a 9 by 5 image of one component, and an attached terrain of patch
  size 4 with that image as its height map.\<close>

definition realPlatform :: "real Platform" where
  "realPlatform =
     \<lparr>of_unsigned = (\<lambda>w. real (unat w)),
      of_signed = (\<lambda>w. real_of_int (sint w)),
      of_uchar = (\<lambda>b. real (unat b)),
      to_unsigned = (\<lambda>r. word_of_int (if r < 0 then \<lceil>r\<rceil> else \<lfloor>r\<rfloor>)),
      floorf = (\<lambda>r. real_of_int \<lfloor>r\<rfloor>),
      half = 1 / 2,
      quarter = 1 / 4,
      Normalized = (\<lambda>v. if DotProduct v v > 0 then vscale v (1 / sqrt (DotProduct v v)) else v),
      uninitialized = 0,
      lockVertexBuffer = True,
      lockIndexBuffer = True\<rparr>"

definition exampleImage :: Image where
  "exampleImage =
     \<lparr>imgWidth = 9, imgHeight = 5, imgComponents = 1, imgCompressed = False,
      imgData = map of_nat [0..<45]\<rparr>"

definition exampleNode :: "real Node" where
  "exampleNode =
     \<lparr>worldToLocal = (\<lambda>v. v), worldScale = Vector3 1 1 1, worldPosition = Vector3 0 0 0,
      children = []\<rparr>"

definition exampleTerrain :: "real Terrain" where
  "exampleTerrain =
     (newTerrain realPlatform (- 1) (- 1) (- 1) (- 1))
       \<lparr>node := Some exampleNode, heightMap := Some exampleImage, patchSize := 4\<rparr>"

text \<open>A terrain with a height field of 3 by 2 samples.\<close>

definition fieldTerrain :: "real Terrain" where
  "fieldTerrain =
     (newTerrain realPlatform (- 1) (- 1) (- 1) (- 1))
       \<lparr>node := Some exampleNode, heightData := Some [10, 20, 30, 40, 50, 60],
        terrainSize := IntVector2 3 2\<rparr>"

section \<open>Word arithmetic\<close>

lemma sint_bounds32: "- 2147483648 \<le> sint (w::u32)" "sint w < 2147483648"
  using sint_ge [of w] sint_lt [of w] by simp_all

lemma unat_bound32: "unat (w::u32) < 4294967296"
  using unsigned_less [of w, where ?'a = nat] by simp

lemma sint_nonneg_unat:
  assumes "0 \<le> sint (w::u32)"
  shows "int (unat w) = sint w"
proof -
  have "sint w < 2 ^ 32" using sint_bounds32(2) [of w] by simp
  with assms have "take_bit 32 (sint w) = sint w"
    by (rule take_bit_int_eq_self)
  moreover have "uint w = take_bit 32 (sint w)"
    using uint_sint [of w] by simp
  ultimately show ?thesis by (simp only: uint_nat)
qed

lemma sint_of_small:
  assumes "unat (w::u32) < 2147483648"
  shows "sint w = int (unat w)"
proof -
  have a: "- (2 ^ 31) \<le> uint w" by (rule order_trans [of _ 0]) simp_all
  have "int (unat w) < 2147483648" using assms by linarith
  then have b: "uint w < 2 ^ 31" by (simp only: uint_nat) simp
  have "sint w = signed_take_bit 31 (uint w)" using sint_uint [of w] by simp
  also have "\<dots> = uint w" using a b by (rule signed_take_bit_int_eq_self)
  finally show ?thesis by (simp only: uint_nat)
qed

lemma sint_minus_one:
  assumes "1 \<le> sint (w::u32)"
  shows "sint (w - 1) = sint w - 1"
proof -
  have "sint (w - 1) = signed_take_bit 31 (sint w - sint (1::u32))"
    by (simp add: sint_word_diff)
  also have "sint (1::u32) = 1" by simp
  also have "signed_take_bit 31 (sint w - 1) = sint w - 1"
    using assms sint_bounds32 [of w] by (intro signed_take_bit_int_eq_self) simp_all
  finally show ?thesis .
qed

lemma unat_mult_add_small:
  assumes "unat (a::u32) * unat b + unat c < 4294967296"
  shows "unat (a * b + c) = unat a * unat b + unat c"
proof -
  have "unat a * unat b < 2 ^ LENGTH(32)" using assms by simp
  then have m: "unat (a * b) = unat a * unat b" by (simp only: unat_mult_lem)
  have "unat (a * b) + unat c < 2 ^ LENGTH(32)" using assms m by simp
  then have "unat (a * b + c) = unat (a * b) + unat c" by (simp only: unat_add_lem)
  with m show ?thesis by simp
qed

section \<open>Height queries\<close>

lemma Clamp_sint:
  assumes "0 \<le> sint hi"
  shows "sint (Clamp v 0 hi) = clampInt (sint v) 0 (sint hi)"
  using assms by (auto simp: Clamp_def clampInt_def)

lemma clampInt_range: "lo \<le> hi \<Longrightarrow> lo \<le> clampInt v lo hi \<and> clampInt v lo hi \<le> hi"
  by (auto simp: clampInt_def)

lemma GetRawHeight_SampleRaw:
  assumes ok: "heightFieldOk s"
  shows "GetRawHeight s x z = Some (SampleRaw s (sint x) (sint z))"
proof (cases "heightData s")
  case None
  then show ?thesis by (simp add: GetRawHeight_def SampleRaw_def)
next
  case (Some hs)
  define sx where "sx = sint (ivx (terrainSize s))"
  define sy where "sy = sint (ivy (terrainSize s))"
  define cx where "cx = clampInt (sint x) 0 (sx - 1)"
  define cz where "cz = clampInt (sint z) 0 (sy - 1)"
  from ok Some have dims: "1 \<le> sx" "1 \<le> sy" "sx * sy < 2 ^ 31" "int (length hs) = sx * sy"
    by (simp_all add: heightFieldOk_def sx_def sy_def)
  have hx: "sint (ivx (terrainSize s) - 1) = sx - 1"
    using dims(1) by (simp add: sx_def sint_minus_one)
  have hz: "sint (ivy (terrainSize s) - 1) = sy - 1"
    using dims(2) by (simp add: sy_def sint_minus_one)
  have x': "sint (Clamp x 0 (ivx (terrainSize s) - 1)) = cx"
    using dims(1) by (simp add: Clamp_sint hx cx_def)
  have z': "sint (Clamp z 0 (ivy (terrainSize s) - 1)) = cz"
    using dims(2) by (simp add: Clamp_sint hz cz_def)
  have cxr: "0 \<le> cx" "cx \<le> sx - 1"
    using clampInt_range [of 0 "sx - 1" "sint x"] dims(1) by (simp_all add: cx_def)
  have czr: "0 \<le> cz" "cz \<le> sy - 1"
    using clampInt_range [of 0 "sy - 1" "sint z"] dims(2) by (simp_all add: cz_def)
  have ux: "int (unat (Clamp x 0 (ivx (terrainSize s) - 1))) = cx"
    using sint_nonneg_unat [of "Clamp x 0 (ivx (terrainSize s) - 1)"] cxr x' by simp
  have uz: "int (unat (Clamp z 0 (ivy (terrainSize s) - 1))) = cz"
    using sint_nonneg_unat [of "Clamp z 0 (ivy (terrainSize s) - 1)"] czr z' by simp
  have us: "int (unat (ivx (terrainSize s))) = sx"
    using sint_nonneg_unat [of "ivx (terrainSize s)"] dims(1) by (simp add: sx_def)
  have "cz * sx \<le> (sy - 1) * sx"
    using czr dims(1) by (intro mult_right_mono) simp_all
  then have bound: "cz * sx + cx < sx * sy"
    using cxr by (simp add: algebra_simps)
  have nonneg: "0 \<le> cz * sx + cx"
    using czr cxr dims(1) by simp
  define N where "N = unat (Clamp z 0 (ivy (terrainSize s) - 1)) * unat (ivx (terrainSize s))
          + unat (Clamp x 0 (ivx (terrainSize s) - 1))"
  have "int N = int (unat (Clamp z 0 (ivy (terrainSize s) - 1))) * int (unat (ivx (terrainSize s)))
          + int (unat (Clamp x 0 (ivx (terrainSize s) - 1)))"
    by (simp only: N_def of_nat_add of_nat_mult)
  then have N: "int N = cz * sx + cx"
    by (simp only: ux uz us)
  have d3: "sx * sy < 2147483648" using dims(3) by simp
  have "int N < 2147483648" using N bound d3 by linarith
  then have small: "N < 4294967296" by linarith
  have "unat (Clamp z 0 (ivy (terrainSize s) - 1) * ivx (terrainSize s)
          + Clamp x 0 (ivx (terrainSize s) - 1)) = N"
    unfolding N_def by (rule unat_mult_add_small) (use small in \<open>simp only: N_def\<close>)
  with N have idx': "unat (Clamp z 0 (ivy (terrainSize s) - 1) * ivx (terrainSize s)
          + Clamp x 0 (ivx (terrainSize s) - 1)) = nat (cz * sx + cx)"
    by linarith
  have inrange: "nat (cz * sx + cx) < length hs"
    using bound dims(4) nonneg by linarith
  show ?thesis
    using Some inrange
    by (simp add: GetRawHeight_def SampleRaw_def Let_def idx' cx_def cz_def sx_def sy_def)
qed

lemma IsPowerOfTwo_iff: "IsPowerOfTwo v \<longleftrightarrow> (\<exists>k. unat v = 2 ^ k)"
proof
  assume "IsPowerOfTwo v"
  then obtain k where k: "k < 32" "v = 2 ^ k"
    by (auto simp: IsPowerOfTwo_def)
  have "(2::nat) ^ k < 2 ^ 32" using k(1) by (simp only: power_strict_increasing_iff)
  moreover have "(2::u32) ^ k = of_nat (2 ^ k)" by simp
  ultimately have "unat ((2::u32) ^ k) = 2 ^ k"
    by (simp only: unat_of_nat) simp
  with k show "\<exists>k. unat v = 2 ^ k" by blast
next
  assume "\<exists>k. unat v = 2 ^ k"
  then obtain k where k: "unat v = 2 ^ k" ..
  have "(2::nat) ^ k < 2 ^ 32" using unat_bound32 [of v] k by simp
  then have "k < 32" by (simp only: power_strict_increasing_iff)
  moreover have "v = 2 ^ k"
    using k by (metis le_unat_uoi of_nat_numeral of_nat_power verit_comp_simplify1(2) word_eq_iff_unsigned)
  ultimately show "IsPowerOfTwo v" by (auto simp: IsPowerOfTwo_def)
qed

lemma GetNormal_binds:
  fixes c n ne e se so sw w nw :: "('f::{zero,one,plus,minus,uminus}) option"
  shows "do {
     baseHeight \<leftarrow> c; n \<leftarrow> n; ne \<leftarrow> ne; e \<leftarrow> e; se \<leftarrow> se; so \<leftarrow> so; sw \<leftarrow> sw; w \<leftarrow> w; nw \<leftarrow> nw;
     Some (F baseHeight n ne e se so sw w nw) }
   = do {
     center \<leftarrow> c;
     neighbours \<leftarrow> those [n, ne, e, se, so, sw, w, nw];
     Some (F center (neighbours ! 0) (neighbours ! 1) (neighbours ! 2) (neighbours ! 3)
             (neighbours ! 4) (neighbours ! 5) (neighbours ! 6) (neighbours ! 7)) }"
  by (cases c; cases n; cases ne; cases e; cases se; cases so; cases sw; cases w; cases nw) simp_all

lemma EstimateNormal_eq: "GetNormal pf s x z = EstimateNormal pf s x z"
  unfolding GetNormal_def EstimateNormal_def compass_def Let_def
  by (cases "GetRawHeight s x z"; cases "GetRawHeight s x (z - 1)";
      cases "GetRawHeight s (x + 1) (z - 1)"; cases "GetRawHeight s (x + 1) z";
      cases "GetRawHeight s (x + 1) (z + 1)"; cases "GetRawHeight s x (z + 1)";
      cases "GetRawHeight s (x - 1) (z + 1)"; cases "GetRawHeight s (x - 1) z";
      cases "GetRawHeight s (x - 1) (z - 1)")
     (simp_all add: slopeVector_def lean_def)

lemma QueryHeight_eq: "GetHeight pf s worldPos = QueryHeight pf s worldPos"
  unfolding GetHeight_def QueryHeight_def Let_def
  by (auto split: option.splits Option.bind_splits)

lemma GetNormal_total:
  assumes "heightFieldOk s"
  shows "\<exists>n. GetNormal pf s x z = Some n"
  by (simp add: GetNormal_def GetRawHeight_SampleRaw [OF assms] Let_def)

lemma GetHeight_total:
  assumes "heightFieldOk s"
  shows "\<exists>h. GetHeight pf s worldPos = Some h"
  by (simp add: GetHeight_def GetRawHeight_SampleRaw [OF assms] Let_def split: option.splits)

lemma GetRawHeight_cong:
  "heightData s' = heightData s \<Longrightarrow> terrainSize s' = terrainSize s \<Longrightarrow>
     GetRawHeight s' x z = GetRawHeight s x z"
  by (simp add: GetRawHeight_def split: option.splits)

lemma GetNormal_cong:
  "heightData s' = heightData s \<Longrightarrow> terrainSize s' = terrainSize s \<Longrightarrow>
     GetNormal pf s' x z = GetNormal pf s x z"
  by (simp add: GetNormal_def GetRawHeight_cong [of s' s])


lemma forEachPatch_fields:
  "forEachPatch f s = s\<lparr>patchObjects := patchObjects (forEachPatch f s)\<rparr>"
  by (simp add: forEachPatch_def)

lemma forEachPatch_fold_length:
  "length (foldl (\<lambda>objs a. if a < length objs then objs[a := map_option f (objs ! a)] else objs) objs as)
     = length objs"
  by (induction as arbitrary: objs) simp_all

lemma forEachPatch_fold_live:
  assumes "\<And>p. P (f p)" "a < length objs" "a \<in> set as \<or> (\<forall>p. objs ! a = Some p \<longrightarrow> P p)"
  shows "\<forall>p. foldl (\<lambda>objs a. if a < length objs then objs[a := map_option f (objs ! a)] else objs) objs as ! a
            = Some p \<longrightarrow> P p"
  using assms(2,3)
proof (induction as arbitrary: objs)
  case Nil
  then show ?case by simp
next
  case (Cons b as)
  let ?objs' = "if b < length objs then objs[b := map_option f (objs ! b)] else objs"
  have len: "a < length ?objs'" using Cons.prems(1) by simp
  have "a \<in> set as \<or> (\<forall>p. ?objs' ! a = Some p \<longrightarrow> P p)"
  proof (cases "a = b")
    case True
    then show ?thesis using Cons.prems(1) assms(1) by auto
  next
    case False
    then show ?thesis using Cons.prems by auto
  qed
  from Cons.IH [OF len this] show ?case by simp
qed

section \<open>Loops\<close>

lemma foldM_append: "foldM f s (xs @ ys) = Option.bind (foldM f s xs) (\<lambda>s'. foldM f s' ys)"
  by (induction xs arbitrary: s) (simp_all split: Option.bind_split)

lemma foldM_invariant:
  assumes "foldM f s xs = Some s'" "P s"
    and "\<And>t x t'. P t \<Longrightarrow> x \<in> set xs \<Longrightarrow> f t x = Some t' \<Longrightarrow> P t'"
  shows "P s'"
  using assms
proof (induction xs arbitrary: s)
  case Nil
  then show ?case by simp
next
  case (Cons x xs)
  from Cons.prems(1) obtain t where t: "f s x = Some t" "foldM f t xs = Some s'"
    by (auto split: Option.bind_splits)
  have pt: "P t" by (rule Cons.prems(3) [OF Cons.prems(2) _ t(1)]) simp
  show ?case
  proof (rule Cons.IH [OF t(2) pt])
    fix u y u'
    assume "P u" "y \<in> set xs" "f u y = Some u'"
    then show "P u'" using Cons.prems(3) [of u y u'] by simp
  qed
qed

lemma foldM_total:
  assumes "P s"
    and "\<And>t x. P t \<Longrightarrow> x \<in> set xs \<Longrightarrow> \<exists>t'. f t x = Some t' \<and> P t'"
  shows "\<exists>s'. foldM f s xs = Some s' \<and> P s'"
  using assms
proof (induction xs arbitrary: s)
  case Nil
  then show ?case by simp
next
  case (Cons x xs)
  from Cons.prems obtain t where t: "f s x = Some t" "P t" by fastforce
  from Cons.IH [OF t(2)] Cons.prems(2) obtain s' where "foldM f t xs = Some s'" "P s'"
    by fastforce
  with t show ?case by simp
qed

lemma those_map_Some:
  assumes "\<And>x. x \<in> set xs \<Longrightarrow> \<exists>y. f x = Some y"
  shows "those (map f xs) = Some (map (\<lambda>x. the (f x)) xs)"
  using assms
proof (induction xs)
  case Nil
  then show ?case by simp
next
  case (Cons x xs)
  then obtain y where "f x = Some y" by fastforce
  with Cons show ?case by simp
qed

lemma those_Some_length: "those xs = Some ys \<Longrightarrow> length ys = length xs"
  by (induction xs arbitrary: ys) (auto split: option.splits)

lemma those_all_Some:
  assumes "\<And>x. x \<in> set xs \<Longrightarrow> x \<noteq> None"
  shows "\<exists>ys. those xs = Some ys \<and> length ys = length xs"
proof -
  have "those (map id xs) = Some (map (\<lambda>x. the (id x)) xs)"
    by (rule those_map_Some) (use assms in auto)
  then show ?thesis by simp
qed

lemma length_grid: "length (concat (map (\<lambda>z. map (f z) [0..<a]) [0..<b])) = a * b"
  by (induction b) simp_all



lemma in_set_grid:
  "e \<in> set (concat (map (\<lambda>z. map (f z) [0..<a]) [0..<b])) \<longleftrightarrow> (\<exists>z<b. \<exists>x<a. e = f z x)"
proof -
  have "e \<in> set (concat (map (\<lambda>z. map (f z) [0..<a]) [0..<b])) \<longleftrightarrow> (\<exists>z\<in>{0..<b}. e \<in> f z ` {0..<a})"
    by simp
  also have "\<dots> \<longleftrightarrow> (\<exists>z<b. \<exists>x<a. e = f z x)"
    unfolding image_iff Bex_def by auto
  finally show ?thesis .
qed

section \<open>The layout of the grid\<close>

lemma validPatchSize_unat: "validPatchSize p \<Longrightarrow> 4 \<le> unat p \<and> unat p \<le> 128"
  by (simp add: validPatchSize_def MIN_PATCH_SIZE_def MAX_PATCH_SIZE_def word_le_nat_alt)

lemma unat_of_nat32: "n < 4294967296 \<Longrightarrow> unat (of_nat n :: u32) = n"
  by (simp add: unat_of_nat)

lemma unat_of_nat32_le: "unat (of_nat n :: u32) \<le> n"
  by (simp add: unat_of_nat)

lemma wellFormedImage_bounds:
  assumes "wellFormedImage img"
  shows "unat (imgWidth img) * unat (imgHeight img) < 2147483648"
    and "unat (imgWidth img) * unat (imgComponents img) < 2147483648"
    and "unat (imgWidth img) < 2147483648"
    and "unat (imgHeight img) < 2147483648"
proof -
  let ?w = "unat (imgWidth img)" and ?h = "unat (imgHeight img)" and ?c = "unat (imgComponents img)"
  from assms have pos: "1 \<le> ?w" "1 \<le> ?h" "1 \<le> ?c" and lt: "?w * ?h * ?c < 2147483648"
    by (simp_all add: wellFormedImage_def)
  have a: "?w * ?h \<le> ?w * ?h * ?c" using pos(3) by simp
  then show wh: "?w * ?h < 2147483648" using lt by linarith
  have "?w * ?c \<le> ?w * ?h * ?c" using pos(2) by simp
  then show "?w * ?c < 2147483648" using lt by linarith
  have "?w \<le> ?w * ?h" using pos(2) by simp
  then show "?w < 2147483648" using wh by linarith
  have "?h \<le> ?w * ?h" using pos(1) by simp
  then show "?h < 2147483648" using wh by linarith
qed

lemma grid_dim:
  fixes w p :: u32
  assumes p: "4 \<le> unat p" and w: "1 \<le> unat w" "unat w < 2147483648"
  shows "unat ((w - 1) div p) = (unat w - 1) div unat p"
    and "unat ((w - 1) div p * p + 1) = (unat w - 1) div unat p * unat p + 1"
    and "unat ((w - 1) div p * p + 1) \<le> unat w"
    and "sint ((w - 1) div p * p + 1) = int ((unat w - 1) div unat p * unat p + 1)"
proof -
  have "w \<noteq> 0" using w(1) by auto
  then have w1: "unat (w - 1) = unat w - 1" by (rule unat_minus_one)
  show d: "unat ((w - 1) div p) = (unat w - 1) div unat p"
    by (simp add: unat_div w1)
  have le: "(unat w - 1) div unat p * unat p \<le> unat w - 1"
    by (rule div_times_less_eq_dividend)
  have one: "unat (1::u32) = 1" by simp
  have "unat ((w - 1) div p) * unat p \<le> unat w - 1"
    unfolding d by (rule div_times_less_eq_dividend)
  then have small: "unat ((w - 1) div p) * unat p + unat (1::u32) < 4294967296"
    unfolding one using w(2) by linarith
  show m: "unat ((w - 1) div p * p + 1) = (unat w - 1) div unat p * unat p + 1"
    using unat_mult_add_small [OF small] by (simp only: d one)
  show b: "unat ((w - 1) div p * p + 1) \<le> unat w"
    unfolding m using le w(1) by linarith
  have "unat ((w - 1) div p * p + 1) < 2147483648" using b w(2) by simp
  then show "sint ((w - 1) div p * p + 1) = int ((unat w - 1) div unat p * unat p + 1)"
    using sint_of_small [of "(w - 1) div p * p + 1"] by (simp add: m)
qed

text \<open>What a rebuild computes from the configuration alone.\<close>

lemma layoutTerrain_None:
  "heightMap s = None \<Longrightarrow>
     layoutTerrain pf s = Some (s\<lparr>patchesX := 0, patchesZ := 0, terrainSize := IntVector2 0 0,
                                  patchWorldOrigin := Vector2 0 0, heightData := None\<rparr>)"
  by (simp add: layoutTerrain_def)

lemma layoutTerrain_Some:
  assumes hm: "heightMap s = Some img" and vp: "validPatchSize (patchSize s)"
    and wf: "wellFormedImage img"
  shows "layoutTerrain pf s =
     Some (s\<lparr>patchesX := (imgWidth img - 1) div patchSize s,
              patchesZ := (imgHeight img - 1) div patchSize s,
              terrainSize := IntVector2 ((imgWidth img - 1) div patchSize s * patchSize s + 1)
                                        ((imgHeight img - 1) div patchSize s * patchSize s + 1),
              patchWorldOrigin :=
                Vector2 ((- half pf) * of_unsigned pf ((imgWidth img - 1) div patchSize s) * v2x (patchWorldSize s))
                        ((- half pf) * of_unsigned pf ((imgHeight img - 1) div patchSize s) * v2y (patchWorldSize s)),
              heightData := Some (replicate
                (unat ((imgWidth img - 1) div patchSize s * patchSize s + 1) *
                 unat ((imgHeight img - 1) div patchSize s * patchSize s + 1)) (uninitialized pf))\<rparr>)"
proof -
  let ?p = "patchSize s"
  let ?sx = "(imgWidth img - 1) div ?p * ?p + 1" and ?sy = "(imgHeight img - 1) div ?p * ?p + 1"
  have p4: "4 \<le> unat ?p" using validPatchSize_unat [OF vp] by simp
  then have p0: "?p \<noteq> 0" by auto
  have w: "1 \<le> unat (imgWidth img)" "1 \<le> unat (imgHeight img)"
    using wf by (simp_all add: wellFormedImage_def)
  note b = wellFormedImage_bounds [OF wf]
  note gx = grid_dim [OF p4 w(1) b(3)] and gy = grid_dim [OF p4 w(2) b(4)]
  have sx: "sint ?sx = int (unat ?sx)" using gx(2,4) by simp
  have sy: "sint ?sy = int (unat ?sy)" using gy(2,4) by simp
  have "unat ?sx * unat ?sy \<le> unat (imgWidth img) * unat (imgHeight img)"
    by (rule mult_le_mono) (rule gx(3), rule gy(3))
  then have lt: "unat ?sx * unat ?sy < 2147483648" using b(1) by simp
  have n: "sint ?sx * sint ?sy = int (unat ?sx * unat ?sy)" by (simp only: sx sy of_nat_mult)
  have n1: "0 \<le> sint ?sx * sint ?sy" by (simp only: n of_nat_0_le_iff)
  have p31: "(2::int) ^ 31 = 2147483648" by simp
  have n2: "sint ?sx * sint ?sy < 2 ^ 31" unfolding n p31 using lt by linarith
  have n3: "nat (sint ?sx * sint ?sy) = unat ?sx * unat ?sy" by (simp only: n nat_int)
  show ?thesis
    unfolding layoutTerrain_def Let_def hm option.case IntVector2.sel
    using p0 n1 n2 by (simp only: n3 if_False if_True simp_thms)
qed

section \<open>Copying the height map\<close>

lemma heightSample_cong:
  "terrainSize s' = terrainSize s \<Longrightarrow> spacing s' = spacing s \<Longrightarrow>
     heightSample pf s' img = heightSample pf s img"
  by (intro ext) (simp add: heightSample_def Let_def)

lemma heightSample_in_range:
  assumes wf: "wellFormedImage img"
    and sy: "unat (ivy (terrainSize s)) \<le> unat (imgHeight img)"
    and sx: "unat (ivx (terrainSize s)) \<le> unat (imgWidth img)"
    and x: "x < unat (ivx (terrainSize s))" and z: "z < unat (ivy (terrainSize s))"
  shows "\<exists>h. heightSample pf s img x z = Some h"
proof -
  let ?w = "unat (imgWidth img)" and ?h = "unat (imgHeight img)" and ?c = "unat (imgComponents img)"
  let ?syw = "ivy (terrainSize s)"
  note b = wellFormedImage_bounds [OF wf]
  from wf have pos: "1 \<le> ?w" "1 \<le> ?h" "1 \<le> ?c" and lt: "?w * ?h * ?c < 2147483648"
    and len: "length (imgData img) = ?w * ?h * ?c"
    by (simp_all add: wellFormedImage_def)
  define k where "k = unat ?syw - 1 - z"
  have kz: "k + (1 + z) = unat ?syw" using z by (simp add: k_def)
  have "of_nat (k + (1 + z)) = (of_nat (unat ?syw) :: u32)" by (simp only: kz)
  then have "(of_nat k :: u32) + (1 + of_nat z) = ?syw" by (simp add: ac_simps)
  then have row: "?syw - 1 - of_nat z = (of_nat k :: u32)" by (simp add: algebra_simps)
  have kh: "k \<le> ?h - 1" using sy z by (simp add: k_def)
  have a: "unat (imgWidth img * imgComponents img) \<le> ?w * ?c"
    by (simp add: unat_word_ariths)
  have b1: "unat (imgWidth img * imgComponents img * (?syw - 1 - of_nat z)) \<le> ?w * ?c * k"
  proof -
    have "unat (imgWidth img * imgComponents img * of_nat k)
            \<le> unat (imgWidth img * imgComponents img) * unat (of_nat k :: u32)"
      by (simp add: unat_word_ariths)
    also have "\<dots> \<le> (?w * ?c) * k"
      by (rule mult_le_mono) (rule a, rule unat_of_nat32_le)
    finally show ?thesis by (simp only: row)
  qed
  have b2: "unat (imgComponents img * of_nat x) \<le> ?c * x"
  proof -
    have "unat (imgComponents img * of_nat x) \<le> ?c * unat (of_nat x :: u32)"
      by (simp add: unat_word_ariths)
    also have "\<dots> \<le> ?c * x" by (rule mult_le_mono2) (rule unat_of_nat32_le)
    finally show ?thesis .
  qed
  have "unat (imgWidth img * imgComponents img * (?syw - 1 - of_nat z) + imgComponents img * of_nat x)
          \<le> unat (imgWidth img * imgComponents img * (?syw - 1 - of_nat z)) + unat (imgComponents img * of_nat x)"
    by (simp add: unat_word_ariths)
  also have "\<dots> \<le> ?w * ?c * k + ?c * x" using b1 b2 by (rule add_mono)
  also have "\<dots> \<le> ?w * ?c * (?h - 1) + ?c * (?w - 1)"
  proof (rule add_mono)
    show "?w * ?c * k \<le> ?w * ?c * (?h - 1)" by (rule mult_le_mono2) (rule kh)
    show "?c * x \<le> ?c * (?w - 1)" by (rule mult_le_mono2) (use x sx in simp)
  qed
  also have "\<dots> < ?w * ?h * ?c"
  proof -
    obtain h' where h': "?h = Suc h'" using pos(2) by (cases ?h) simp_all
    obtain w' where w': "?w = Suc w'" using pos(1) by (cases ?w) simp_all
    obtain c' where c': "?c = Suc c'" using pos(3) by (cases ?c) simp_all
    show ?thesis by (simp add: h' w' c' algebra_simps)
  qed
  finally have "unat (imgWidth img * imgComponents img * (?syw - 1 - of_nat z) + imgComponents img * of_nat x)
      < length (imgData img)"
    by (simp only: len)
  then show ?thesis by (simp add: heightSample_def Let_def)
qed

lemma copyHeightData_Some:
  assumes wf: "wellFormedImage img"
    and sy: "unat (ivy (terrainSize s)) \<le> unat (imgHeight img)"
    and sx: "unat (ivx (terrainSize s)) \<le> unat (imgWidth img)"
    and hd: "heightData s = Some dest"
      "length dest = unat (ivx (terrainSize s)) * unat (ivy (terrainSize s))"
  shows "\<exists>vals. those (concat (map (\<lambda>z. map (\<lambda>x. heightSample pf s img x z)
                                           [0..<nat (sint (ivx (terrainSize s)))])
                                 [0..<nat (sint (ivy (terrainSize s)))])) = Some vals \<and>
           length vals = length dest \<and>
           copyHeightData pf s img = Some (s\<lparr>heightData := Some vals\<rparr>)"
proof -
  note b = wellFormedImage_bounds [OF wf]
  have nx: "nat (sint (ivx (terrainSize s))) = unat (ivx (terrainSize s))"
    using sint_of_small [of "ivx (terrainSize s)"] sx b(3) by simp
  have ny: "nat (sint (ivy (terrainSize s))) = unat (ivy (terrainSize s))"
    using sint_of_small [of "ivy (terrainSize s)"] sy b(4) by simp
  let ?grid = "concat (map (\<lambda>z. map (\<lambda>x. heightSample pf s img x z)
                                           [0..<unat (ivx (terrainSize s))])
                                 [0..<unat (ivy (terrainSize s))])"
  have "\<exists>vals. those ?grid = Some vals \<and> length vals = length ?grid"
  proof (rule those_all_Some)
    fix e assume "e \<in> set ?grid"
    then obtain z x where "z < unat (ivy (terrainSize s))" "x < unat (ivx (terrainSize s))"
      "e = heightSample pf s img x z"
      unfolding in_set_grid by blast
    then show "e \<noteq> None"
      using heightSample_in_range [OF wf sy sx, of x z pf] by auto
  qed
  then obtain vals where vals: "those ?grid = Some vals" "length vals = length ?grid" by blast
  have len: "length vals = length dest"
    by (simp only: vals(2) length_grid hd(2))
  show ?thesis
    using vals(1) len hd(1) by (simp add: copyHeightData_def nx ny)
qed

section \<open>Names of patch nodes\<close>

lemma digitChar_props:
  assumes "d < 10"
  shows "isDigit (digitChar d)" "(of_char (digitChar d) :: nat) = 48 + d" "digitChar d \<noteq> CHR ''_''"
proof -
  show v: "(of_char (digitChar d) :: nat) = 48 + d"
    using assms by (simp add: digitChar_def)
  then show "isDigit (digitChar d)" using assms by (simp add: isDigit_def)
  show "digitChar d \<noteq> CHR ''_''"
  proof
    assume "digitChar d = CHR ''_''"
    then have "(of_char (digitChar d) :: nat) = of_char (CHR ''_'')" by simp
    with v assms show False by simp
  qed
qed

lemma decimal_digits: "decimal n \<noteq> [] \<and> (\<forall>c \<in> set (decimal n). isDigit c \<and> c \<noteq> CHR ''_'')"
proof (induction n rule: decimal.induct)
  case (1 n)
  show ?case
  proof (cases "n < 10")
    case True
    then show ?thesis
      using digitChar_props [of n] by (subst (1 2) decimal.simps) simp
  next
    case False
    have "n mod 10 < 10" by simp
    then show ?thesis
      using False 1 digitChar_props [of "n mod 10"] by (subst (1 2) decimal.simps) auto
  qed
qed

lemma decimal_value: "foldl (\<lambda>acc c. acc * 10 + (of_char c - 48)) 0 (decimal n) = n"
proof (induction n rule: decimal.induct)
  case (1 n)
  show ?case
  proof (cases "n < 10")
    case True
    then show ?thesis
      using digitChar_props(2) [of n] by (subst decimal.simps) simp
  next
    case False
    have "n mod 10 < 10" by simp
    then show ?thesis
      using False 1 digitChar_props(2) [of "n mod 10"] by (subst decimal.simps) simp
  qed
qed

lemma ToUInt_String: "ToUInt (String x) = x"
proof -
  have tw: "takeWhile isDigit (decimal (unat x)) = decimal (unat x)"
    using decimal_digits [of "unat x"] by (simp add: takeWhile_eq_all_conv)
  show ?thesis unfolding ToUInt_def String_def tw decimal_value by simp
qed

lemma Split_two:
  assumes xs: "xs \<noteq> []" "sep \<notin> set xs" and ys: "ys \<noteq> []" "sep \<notin> set ys"
  shows "Split (xs @ sep # ys) sep = [xs, ys]"
proof -
  obtain c cs where xs': "xs = c # cs" using xs(1) by (cases xs) simp_all
  obtain d ds where ys': "ys = d # ds" using ys(1) by (cases ys) simp_all
  have c: "c \<noteq> sep" "sep \<notin> set cs" using xs(2) xs' by auto
  have d: "d \<noteq> sep" "sep \<notin> set ds" using ys(2) ys' by auto
  have tw: "takeWhile (\<lambda>c. c \<noteq> sep) (cs @ sep # ys) = cs"
    using c(2) by (induction cs) auto
  have dw: "dropWhile (\<lambda>c. c \<noteq> sep) (cs @ sep # ys) = sep # ys"
    using c(2) by (induction cs) auto
  have tw2: "takeWhile (\<lambda>c. c \<noteq> sep) ds = ds"
    using d(2) by (simp add: takeWhile_eq_all_conv) metis
  have dw2: "dropWhile (\<lambda>c. c \<noteq> sep) ds = []"
    using d(2) by (simp add: dropWhile_eq_Nil_conv) metis
  have e: "Split [] sep = []" by (subst Split.simps) simp
  have l: "Split (sep # ys) sep = [ys]"
    using d(1) by (subst Split.simps) (simp add: ys' tw2 dw2 e)
  show ?thesis
    using c(1) by (subst Split.simps) (simp add: xs' tw dw l)
qed

lemma patchNodeName_parse:
  "Split (Substring (patchNodeName x z) 6) (CHR ''_'') = [String x, String z]"
proof -
  have "Substring (patchNodeName x z) 6 = String x @ CHR ''_'' # String z"
    by (simp add: Substring_def patchNodeName_def)
  moreover have "String x \<noteq> []" "CHR ''_'' \<notin> set (String x)"
    "String z \<noteq> []" "CHR ''_'' \<notin> set (String z)"
    using decimal_digits [of "unat x"] decimal_digits [of "unat z"] by (auto simp: String_def)
  ultimately show ?thesis by (simp add: Split_two)
qed

lemma patchNodeOk_name: "patchNodeOk s (patchNodeName x z) \<longleftrightarrow> x < patchesX s \<and> z < patchesZ s"
  by (simp add: patchNodeOk_def patchNodeName_parse ToUInt_String)

lemma patchNodeName_inj:
  assumes "patchNodeName x z = patchNodeName x' z'"
  shows "x = x' \<and> z = z'"
proof -
  have "[String x, String z] = [String x', String z']"
    using patchNodeName_parse [of x z] patchNodeName_parse [of x' z'] assms by simp
  then have "ToUInt (String x) = ToUInt (String x')" "ToUInt (String z) = ToUInt (String z')"
    by simp_all
  then show ?thesis by (simp add: ToUInt_String)
qed

section \<open>Children and their components\<close>

lemma GetChild_Some:
  "GetChild cs name = Some i \<Longrightarrow> i < length cs \<and> childName (cs ! i) = name"
proof (induction cs arbitrary: i)
  case Nil
  then show ?case by simp
next
  case (Cons c cs)
  then show ?case by (cases "childName c = name") auto
qed

lemma GetChild_None: "GetChild cs name = None \<longleftrightarrow> name \<notin> childName ` set cs"
  by (induction cs) auto

lemma GetChild_names:
  "map childName cs' = map childName cs \<Longrightarrow> GetChild cs' name = GetChild cs name"
proof (induction cs arbitrary: cs')
  case Nil
  then show ?case by simp
next
  case (Cons c cs)
  then obtain c' cs'' where "cs' = c' # cs''" by (cases cs') auto
  with Cons show ?case by auto
qed

lemma GetChild_append:
  "GetChild (cs @ [c]) name =
     (case GetChild cs name of
        Some i \<Rightarrow> Some i
      | None \<Rightarrow> if childName c = name then Some (length cs) else None)"
  by (induction cs) (auto split: option.splits)

lemma componentAddresses_append [simp]:
  "componentAddresses (cs @ ds) = componentAddresses cs @ componentAddresses ds"
  by (simp add: componentAddresses_def)

lemma componentAddresses_Cons:
  "componentAddresses (c # cs) = (case childPatch c of None \<Rightarrow> [] | Some a \<Rightarrow> [a]) @ componentAddresses cs"
  by (simp add: componentAddresses_def)

lemma componentAddresses_member:
  "a \<in> set (componentAddresses cs) \<longleftrightarrow> (\<exists>i < length cs. childPatch (cs ! i) = Some a)"
proof
  assume "a \<in> set (componentAddresses cs)"
  then obtain c where "c \<in> set cs" "childPatch c = Some a"
    by (auto simp: componentAddresses_def split: option.splits)
  then show "\<exists>i < length cs. childPatch (cs ! i) = Some a"
    by (metis in_set_conv_nth)
next
  assume "\<exists>i < length cs. childPatch (cs ! i) = Some a"
  then obtain i where "i < length cs" "childPatch (cs ! i) = Some a" by blast
  then have "cs ! i \<in> set cs" by simp
  then show "a \<in> set (componentAddresses cs)"
    using \<open>childPatch (cs ! i) = Some a\<close> by (force simp: componentAddresses_def)
qed

lemma componentAddresses_distinct_nth:
  assumes "distinct (componentAddresses cs)" "i < length cs" "j < length cs"
    "childPatch (cs ! i) = Some a" "childPatch (cs ! j) = Some a"
  shows "i = j"
  using assms
proof (induction cs arbitrary: i j)
  case Nil
  then show ?case by simp
next
  case (Cons c cs)
  have d: "distinct (componentAddresses cs)"
    using Cons.prems(1) by (simp add: componentAddresses_Cons)
  show ?case
  proof (cases i)
    case 0
    show ?thesis
    proof (cases j)
      case 0
      with \<open>i = 0\<close> show ?thesis by simp
    next
      case (Suc j')
      have "a \<in> set (componentAddresses cs)"
        using Cons.prems(3,5) Suc by (auto simp: componentAddresses_member)
      moreover have "childPatch c = Some a" using Cons.prems(4) \<open>i = 0\<close> by simp
      ultimately show ?thesis using Cons.prems(1) by (simp add: componentAddresses_Cons)
    qed
  next
    case (Suc i')
    show ?thesis
    proof (cases j)
      case 0
      have "a \<in> set (componentAddresses cs)"
        using Cons.prems(2,4) Suc by (auto simp: componentAddresses_member)
      moreover have "childPatch c = Some a" using Cons.prems(5) \<open>j = 0\<close> by simp
      ultimately show ?thesis using Cons.prems(1) by (simp add: componentAddresses_Cons)
    next
      case (Suc j')
      have "i' = j'"
        using Cons.IH [OF d, of i' j'] Cons.prems(2-5) \<open>i = Suc i'\<close> Suc by simp
      with \<open>i = Suc i'\<close> Suc show ?thesis by simp
    qed
  qed
qed

lemma componentAddresses_same:
  "map childPatch cs' = map childPatch cs \<Longrightarrow> componentAddresses cs' = componentAddresses cs"
proof -
  assume "map childPatch cs' = map childPatch cs"
  then have "map ((\<lambda>p. case p of None \<Rightarrow> [] | Some a \<Rightarrow> [a]) \<circ> childPatch) cs'
      = map ((\<lambda>p. case p of None \<Rightarrow> [] | Some a \<Rightarrow> [a]) \<circ> childPatch) cs"
    by (simp only: map_map [symmetric])
  then show ?thesis by (simp add: componentAddresses_def comp_def)
qed

lemma componentAddresses_update_new:
  assumes "i < length cs" "childPatch (cs ! i) = None" "childPatch c' = Some a"
  shows "set (componentAddresses (cs[i := c'])) = insert a (set (componentAddresses cs))"
    and "distinct (componentAddresses (cs[i := c'])) \<longleftrightarrow>
           distinct (componentAddresses cs) \<and> a \<notin> set (componentAddresses cs)"
proof -
  have old: "cs = take i cs @ cs ! i # drop (Suc i) cs"
    using assms(1) by (rule id_take_nth_drop)
  have new: "cs[i := c'] = take i cs @ c' # drop (Suc i) cs"
    using assms(1) by (rule upd_conv_take_nth_drop)
  have o: "componentAddresses cs = componentAddresses (take i cs) @ componentAddresses (drop (Suc i) cs)"
    by (subst old) (simp add: componentAddresses_Cons assms(2))
  have n: "componentAddresses (cs[i := c'])
      = componentAddresses (take i cs) @ a # componentAddresses (drop (Suc i) cs)"
    by (subst new) (simp add: componentAddresses_Cons assms(3))
  show "set (componentAddresses (cs[i := c'])) = insert a (set (componentAddresses cs))"
    by (simp add: o n)
  show "distinct (componentAddresses (cs[i := c'])) \<longleftrightarrow>
           distinct (componentAddresses cs) \<and> a \<notin> set (componentAddresses cs)"
    by (auto simp: o n)
qed

section \<open>Creating one patch\<close>

lemma createPatch_unfold:
  assumes nd: "node s = Some nd"
    and name_def: "name = patchNodeName (fst xz) (snd xz)"
    and cs0_def: "cs0 = (case GetChild (children nd) name of
                     Some i \<Rightarrow> children nd
                   | None \<Rightarrow> children nd @ [\<lparr>childName = name, childPosition = Vector3 0 0 0,
                                              childPatch = None\<rparr>])"
    and i_def: "i = (case GetChild (children nd) name of Some i \<Rightarrow> i | None \<Rightarrow> length (children nd))"
    and a_def: "a = (case childPatch (cs0 ! i) of Some a \<Rightarrow> a | None \<Rightarrow> length (patchObjects s))"
    and objs0_def: "objs0 = (case childPatch (cs0 ! i) of
                       Some a \<Rightarrow> patchObjects s
                     | None \<Rightarrow> patchObjects s @ [Some newTerrainPatch])"
  shows "createPatch pf s xz =
           (if a < length objs0 then
              (case objs0 ! a of
                 None \<Rightarrow> None
               | Some patch \<Rightarrow>
                   Some (s\<lparr>node := Some (nd\<lparr>children :=
                              cs0[i := (cs0 ! i)\<lparr>childPosition := patchPosition pf s (fst xz) (snd xz),
                                                 childPatch := Some a\<rparr>]\<rparr>),
                           patchObjects := objs0[a := Some (configurePatch s (fst xz) (snd xz) patch)],
                           patches := patches s @ [a]\<rparr>))
            else None)"
    and "i < length cs0" and "childName (cs0 ! i) = name" and "GetChild cs0 name = Some i"
proof -
  show i: "i < length cs0"
    unfolding i_def cs0_def by (auto split: option.splits dest: GetChild_Some)
  show "childName (cs0 ! i) = name"
    unfolding i_def cs0_def by (auto split: option.splits dest: GetChild_Some)
  show "GetChild cs0 name = Some i"
    unfolding i_def cs0_def by (auto split: option.splits simp: GetChild_append)
  show "createPatch pf s xz =
           (if a < length objs0 then
              (case objs0 ! a of
                 None \<Rightarrow> None
               | Some patch \<Rightarrow>
                   Some (s\<lparr>node := Some (nd\<lparr>children :=
                              cs0[i := (cs0 ! i)\<lparr>childPosition := patchPosition pf s (fst xz) (snd xz),
                                                 childPatch := Some a\<rparr>]\<rparr>),
                           patchObjects := objs0[a := Some (configurePatch s (fst xz) (snd xz) patch)],
                           patches := patches s @ [a]\<rparr>))
            else None)"
  proof (cases "GetChild (children nd) name")
    case None
    have v: "cs0 = children nd @ [\<lparr>childName = name, childPosition = Vector3 0 0 0, childPatch = None\<rparr>]"
      "i = length (children nd)"
      using None by (simp_all add: cs0_def i_def)
    have w: "a = length (patchObjects s)" "objs0 = patchObjects s @ [Some newTerrainPatch]"
      by (simp_all add: a_def objs0_def v)
    show ?thesis
      using None by (simp add: createPatch_def nd Let_def name_def [symmetric] v w split: option.splits)
  next
    case (Some i0)
    then have i0: "i0 < length (children nd)" by (auto dest: GetChild_Some)
    have v: "cs0 = children nd" "i = i0"
      using Some by (simp_all add: cs0_def i_def)
    show ?thesis
    proof (cases "childPatch (children nd ! i0)")
      case None
      have w: "a = length (patchObjects s)" "objs0 = patchObjects s @ [Some newTerrainPatch]"
        using None by (simp_all add: a_def objs0_def v)
      show ?thesis
        using Some None i0 by (simp add: createPatch_def nd Let_def name_def [symmetric] v w split: option.splits)
    next
      case (Some a0)
      have w: "a = a0" "objs0 = patchObjects s"
        using Some by (simp_all add: a_def objs0_def v)
      show ?thesis
        using \<open>GetChild (children nd) name = Some i0\<close> Some i0
        by (simp add: createPatch_def nd Let_def name_def [symmetric] v w split: option.splits)
    qed
  qed
qed

lemma patchNodeOk_frame:
  "patchesX s' = patchesX s \<Longrightarrow> patchesZ s' = patchesZ s \<Longrightarrow> patchNodeOk s' = patchNodeOk s"
  by (intro ext) (simp add: patchNodeOk_def)

lemma configurePatch_frame:
  "configurePatch (s\<lparr>node := n, patchObjects := ob, patches := ps\<rparr>) = configurePatch s"
  by (intro ext) (simp add: configurePatch_def)

lemma patchPosition_frame:
  "patchPosition pf (s\<lparr>node := n, patchObjects := ob, patches := ps\<rparr>) = patchPosition pf s"
  by (intro ext) (simp add: patchPosition_def)

lemma configurePatch_idem: "configurePatch s x z (configurePatch s x z p) = configurePatch s x z p"
  by (simp add: configurePatch_def)

lemma sceneConsistent_live:
  assumes "sceneConsistent s" "node s = Some nd" "j < length (children nd)"
    "childPatch (children nd ! j) = Some b"
  shows "b < length (patchObjects s) \<and> (\<exists>p. patchObjects s ! b = Some p)"
proof -
  have "b \<in> set (componentAddresses (children nd))"
    using assms(3,4) by (auto simp: componentAddresses_member)
  then show ?thesis
    using assms(1,2) by (auto simp: sceneConsistent_def list_all_iff)
qed

lemma createPatch_step:
  assumes nd: "node s = Some nd" and cons: "sceneConsistent s" and kept: "patchNodesKept s"
    and inr: "fst xz < patchesX s" "snd xz < patchesZ s"
  shows "\<exists>s' a. createPatch pf s xz = Some s' \<and>
           (\<exists>nd' objs'. s' = s\<lparr>node := Some nd', patchObjects := objs', patches := patches s @ [a]\<rparr>) \<and>
           sceneConsistent s' \<and> patchNodesKept s' \<and> patchPlaced pf s' xz a \<and>
           (\<forall>xz' a'. xz' \<noteq> xz \<longrightarrow> patchPlaced pf s xz' a' \<longrightarrow> patchPlaced pf s' xz' a')"
proof -
  define name where "name = patchNodeName (fst xz) (snd xz)"
  define cs0 where "cs0 = (case GetChild (children nd) name of
                     Some i \<Rightarrow> children nd
                   | None \<Rightarrow> children nd @ [\<lparr>childName = name, childPosition = Vector3 0 0 0,
                                              childPatch = None\<rparr>])"
  define i where "i = (case GetChild (children nd) name of Some i \<Rightarrow> i | None \<Rightarrow> length (children nd))"
  define a where "a = (case childPatch (cs0 ! i) of Some a \<Rightarrow> a | None \<Rightarrow> length (patchObjects s))"
  define objs0 where "objs0 = (case childPatch (cs0 ! i) of
                       Some a \<Rightarrow> patchObjects s
                     | None \<Rightarrow> patchObjects s @ [Some newTerrainPatch])"
  define pos where "pos = patchPosition pf s (fst xz) (snd xz)"
  define cs' where "cs' = cs0[i := (cs0 ! i)\<lparr>childPosition := pos, childPatch := Some a\<rparr>]"
  note u = createPatch_unfold [OF nd name_def cs0_def i_def a_def objs0_def]
  let ?objs = "patchObjects s"
  \<comment> \<open>the children before and after\<close>
  have cs0_old: "j < length (children nd) \<Longrightarrow> cs0 ! j = children nd ! j" for j
    by (simp add: cs0_def nth_append split: option.splits)
  have cs0_len: "length (children nd) \<le> length cs0"
    by (simp add: cs0_def split: option.splits)
  have cs0_addr: "componentAddresses cs0 = componentAddresses (children nd)"
    by (simp add: cs0_def componentAddresses_def split: option.splits)
  have found: "i < length (children nd)" if "childPatch (cs0 ! i) = Some b" for b
  proof (rule ccontr)
    assume "\<not> i < length (children nd)"
    then have "GetChild (children nd) name = None"
      using GetChild_Some [of "children nd" name] by (auto simp: i_def split: option.splits)
    then have "cs0 ! i = \<lparr>childName = name, childPosition = Vector3 0 0 0, childPatch = None\<rparr>"
      by (simp add: cs0_def i_def)
    with that show False by simp
  qed
  \<comment> \<open>the component is live\<close>
  have live: "a < length objs0 \<and> (\<exists>p. objs0 ! a = Some p)"
  proof (cases "childPatch (cs0 ! i)")
    case None
    then show ?thesis by (simp add: a_def objs0_def)
  next
    case (Some b)
    have "childPatch (children nd ! i) = Some b" using Some found [OF Some] cs0_old by simp
    from sceneConsistent_live [OF cons nd found [OF Some] this] Some
    show ?thesis by (simp add: a_def objs0_def)
  qed
  then obtain patch0 where patch0: "a < length objs0" "objs0 ! a = Some patch0" by blast
  define objs' where "objs' = objs0[a := Some (configurePatch s (fst xz) (snd xz) patch0)]"
  define s' where "s' = s\<lparr>node := Some (nd\<lparr>children := cs'\<rparr>), patchObjects := objs',
                         patches := patches s @ [a]\<rparr>"
  have res: "createPatch pf s xz = Some s'"
    using u(1) patch0 by (simp add: s'_def objs'_def cs'_def pos_def)
  \<comment> \<open>the store before and after\<close>
  have objs0_old: "b < length ?objs \<Longrightarrow> objs0 ! b = ?objs ! b" for b
    by (simp add: objs0_def nth_append split: option.splits)
  have objs0_len: "length ?objs \<le> length objs0"
    by (simp add: objs0_def split: option.splits)
  have objs'_len: "length objs' = length objs0" by (simp add: objs'_def)
  have objs'_a: "objs' ! a = Some (configurePatch s (fst xz) (snd xz) patch0)"
    using patch0(1) by (simp add: objs'_def)
  have objs'_old: "b < length ?objs \<Longrightarrow> b \<noteq> a \<Longrightarrow> objs' ! b = ?objs ! b" for b
    using objs0_old by (simp add: objs'_def)
  have fresh: "a \<notin> set (componentAddresses (children nd))" if "childPatch (cs0 ! i) = None"
  proof
    assume "a \<in> set (componentAddresses (children nd))"
    then have "a < length ?objs"
      using cons nd by (auto simp: sceneConsistent_def list_all_iff)
    then show False using that by (simp add: a_def)
  qed
  \<comment> \<open>the children after\<close>
  have cs'_len: "length cs' = length cs0" by (simp add: cs'_def)
  have cs'_i: "cs' ! i = (cs0 ! i)\<lparr>childPosition := pos, childPatch := Some a\<rparr>"
    using u(2) by (simp add: cs'_def)
  have cs'_other: "j \<noteq> i \<Longrightarrow> cs' ! j = cs0 ! j" for j
    by (simp add: cs'_def)
  have names: "map childName cs' = map childName cs0"
    by (simp add: cs'_def map_update list_update_same_conv u(2))
  have get': "GetChild cs' n = GetChild cs0 n" for n
    using names by (rule GetChild_names)
  have addr': "set (componentAddresses cs') = insert a (set (componentAddresses (children nd))) \<and>
      distinct (componentAddresses cs')"
  proof (cases "childPatch (cs0 ! i)")
    case None
    have "distinct (componentAddresses cs0) \<and> a \<notin> set (componentAddresses cs0)"
      using cons nd fresh [OF None] by (simp add: cs0_addr sceneConsistent_def)
    then show ?thesis
      unfolding cs'_def
      using componentAddresses_update_new [OF u(2) None, of "(cs0 ! i)\<lparr>childPosition := pos, childPatch := Some a\<rparr>" a]
      by (simp add: cs0_addr)
  next
    case (Some b)
    then have ab: "a = b" by (simp add: a_def)
    have "map childPatch cs' = map childPatch cs0"
      using Some ab by (simp add: cs'_def map_update list_update_same_conv u(2))
    then have "componentAddresses cs' = componentAddresses (children nd)"
      using componentAddresses_same cs0_addr by metis
    moreover have "a \<in> set (componentAddresses (children nd))"
      using Some ab found [OF Some] cs0_old by (auto simp: componentAddresses_member)
    ultimately show ?thesis
      using cons nd by (auto simp: sceneConsistent_def)
  qed
  have nd': "node s' = Some (nd\<lparr>children := cs'\<rparr>)" by (simp add: s'_def)
  have objs_s': "patchObjects s' = objs'" by (simp add: s'_def)
  \<comment> \<open>the conclusions\<close>
  have c1: "sceneConsistent s'"
  proof -
    have "b < length objs' \<and> objs' ! b \<noteq> None" if "b \<in> set (componentAddresses cs')" for b
    proof (cases "b = a")
      case True
      then show ?thesis using patch0(1) objs'_a objs'_len by simp
    next
      case False
      then have "b \<in> set (componentAddresses (children nd))" using that addr' by auto
      then have "b < length ?objs \<and> ?objs ! b \<noteq> None"
        using cons nd by (auto simp: sceneConsistent_def list_all_iff)
      then show ?thesis using objs'_old [of b] False objs0_len objs'_len by simp
    qed
    then show ?thesis
      using addr' by (simp add: sceneConsistent_def nd' objs_s' list_all_iff)
  qed
  have ok': "patchNodeOk s' = patchNodeOk s"
    by (rule patchNodeOk_frame) (simp_all add: s'_def)
  have c2: "patchNodesKept s'"
  proof -
    have "childPatch (cs' ! j) = None \<or> patchNodeOk s (childName (cs' ! j))" if j: "j < length cs'" for j
    proof (cases "j = i")
      case True
      have "childName (cs' ! i) = patchNodeName (fst xz) (snd xz)"
        using u(3) by (simp add: cs'_i name_def)
      then show ?thesis using True inr by (simp add: patchNodeOk_name)
    next
      case False
      show ?thesis
      proof (cases "j < length (children nd)")
        case True
        then have "children nd ! j \<in> set (children nd)" by simp
        then have "childPatch (children nd ! j) = None \<or> patchNodeOk s (childName (children nd ! j))"
          using kept nd by (simp add: patchNodesKept_def list_all_iff)
        then show ?thesis using cs'_other [OF False] cs0_old [OF True] by simp
      next
        case False
        then have "GetChild (children nd) name = None" "j = length (children nd)"
          using j cs'_len by (auto simp: cs0_def split: option.splits)
        then have "j = i" by (simp add: i_def)
        with \<open>j \<noteq> i\<close> show ?thesis by simp
      qed
    qed
    then show ?thesis
      by (simp add: patchNodesKept_def nd' ok' list_all_length)
  qed
  have c3: "patchPlaced pf s' xz a"
    using u(4) patch0(1) objs'_a objs'_len
    by (simp add: patchPlaced_def nd' objs_s' get' cs'_i name_def [symmetric] pos_def
        s'_def configurePatch_frame patchPosition_frame configurePatch_idem)
  have c4: "patchPlaced pf s' xz' a'" if ne: "xz' \<noteq> xz" and pl: "patchPlaced pf s xz' a'" for xz' a'
  proof -
    define name' where "name' = patchNodeName (fst xz') (snd xz')"
    have nn: "name' \<noteq> name"
      using ne patchNodeName_inj [of "fst xz'" "snd xz'" "fst xz" "snd xz"]
      by (auto simp: name'_def name_def prod_eq_iff)
    from pl obtain j p where j: "GetChild (children nd) name' = Some j"
      "childPatch (children nd ! j) = Some a'"
      "childPosition (children nd ! j) = patchPosition pf s (fst xz') (snd xz')"
      "a' < length ?objs" "?objs ! a' = Some p" "configurePatch s (fst xz') (snd xz') p = p"
      by (auto simp: patchPlaced_def nd name'_def split: option.splits)
    have jl: "j < length (children nd)" "childName (children nd ! j) = name'"
      using GetChild_Some [OF j(1)] by simp_all
    have g0: "GetChild cs0 name' = Some j"
      using j(1) by (simp add: cs0_def GetChild_append split: option.splits)
    have ji: "j \<noteq> i"
    proof
      assume "j = i"
      then have "childName (cs0 ! j) = name" using u(3) by simp
      then show False using cs0_old [OF jl(1)] jl(2) nn by simp
    qed
    have cj: "cs' ! j = children nd ! j"
      using cs'_other [OF ji] cs0_old [OF jl(1)] by simp
    have aa: "a' \<noteq> a"
    proof (cases "childPatch (cs0 ! i)")
      case None
      then show ?thesis using j(4) by (simp add: a_def)
    next
      case (Some b)
      then have ab: "a = b" by (simp add: a_def)
      have il: "i < length (children nd)" by (rule found [OF Some])
      have "childPatch (children nd ! i) = Some a" using Some ab cs0_old [OF il] by simp
      then show ?thesis
        using componentAddresses_distinct_nth [of "children nd" i j a] cons nd il jl(1) j(2) ji
        by (auto simp: sceneConsistent_def)
    qed
    have "objs' ! a' = Some p" using objs'_old [OF j(4) aa] j(5) by simp
    moreover have "a' < length objs'" using j(4) objs0_len objs'_len by simp
    ultimately show ?thesis
      using g0 cj j(2,3,6)
      by (simp add: patchPlaced_def nd' objs_s' get' name'_def [symmetric]
          s'_def configurePatch_frame patchPosition_frame)
  qed
  show ?thesis
    using res c1 c2 c3 c4 unfolding s'_def by blast
qed

lemma createPatch_noop:
  assumes "patchPlaced pf s xz a"
  shows "createPatch pf s xz = Some (s\<lparr>patches := patches s @ [a]\<rparr>)"
proof -
  from assms obtain nd where nd: "node s = Some nd"
    by (auto simp: patchPlaced_def split: option.splits)
  define name where "name = patchNodeName (fst xz) (snd xz)"
  from assms nd obtain i p where i: "GetChild (children nd) name = Some i"
    "childPatch (children nd ! i) = Some a"
    "childPosition (children nd ! i) = patchPosition pf s (fst xz) (snd xz)"
    "a < length (patchObjects s)" "patchObjects s ! a = Some p"
    "configurePatch s (fst xz) (snd xz) p = p"
    by (auto simp: patchPlaced_def name_def split: option.splits)
  have il: "i < length (children nd)" using GetChild_Some [OF i(1)] by simp
  have c: "(children nd)[i := (children nd ! i)\<lparr>childPosition := patchPosition pf s (fst xz) (snd xz),
                                               childPatch := Some a\<rparr>] = children nd"
    using i(2,3) [symmetric] by (simp add: list_update_same_conv il)
  have o: "(patchObjects s)[a := Some p] = patchObjects s"
    using i(4,5) by (simp add: list_update_same_conv)
  have n: "nd\<lparr>children := children nd\<rparr> = nd" by simp
  have r: "s\<lparr>node := Some nd\<rparr> = s"
    using nd by (cases s) simp
  show ?thesis
    using createPatch_unfold(1) [OF nd name_def refl refl refl refl, of pf]
    by (simp add: i c o n r)
qed

subsection \<open>The loop over the patch coordinates\<close>

lemma foldM_prefix:
  assumes base: "P [] s"
    and step: "\<And>ds x ys t. xs = ds @ x # ys \<Longrightarrow> P ds t \<Longrightarrow> \<exists>t'. f t x = Some t' \<and> P (ds @ [x]) t'"
  shows "\<exists>s'. foldM f s xs = Some s' \<and> P xs s'"
proof -
  have "\<exists>s'. foldM f t ys = Some s' \<and> P (ds @ ys) s'" if "xs = ds @ ys" "P ds t" for ds ys t
    using that
  proof (induction ys arbitrary: ds t)
    case Nil
    then show ?case by simp
  next
    case (Cons y ys)
    from step [OF Cons.prems] obtain t' where t': "f t y = Some t'" "P (ds @ [y]) t'" by blast
    have "xs = (ds @ [y]) @ ys" using Cons.prems(1) by simp
    from Cons.IH [OF this t'(2)] t'(1) show ?case by simp
  qed
  from this [of "[]" xs s] base show ?thesis by simp
qed

lemma patchCoords_product:
  "patchCoords s = map (\<lambda>zx. (of_nat (snd zx), of_nat (fst zx)))
                       (List.product [0..<unat (patchesZ s)] [0..<unat (patchesX s)])"
  by (simp add: patchCoords_def product_concat_map map_concat comp_def)

lemma length_patchCoords: "length (patchCoords s) = unat (patchesX s) * unat (patchesZ s)"
  by (simp add: patchCoords_def length_grid)

lemma of_nat_less_word:
  assumes "n < unat (w::u32)"
  shows "(of_nat n :: u32) < w" "unat (of_nat n :: u32) = n"
proof -
  have "n < 4294967296" using assms unat_bound32 [of w] by linarith
  then show u: "unat (of_nat n :: u32) = n" by (rule unat_of_nat32)
  show "(of_nat n :: u32) < w" using assms by (simp only: word_less_nat_alt u)
qed

lemma patchCoords_member:
  assumes "xz \<in> set (patchCoords s)"
  shows "fst xz < patchesX s \<and> snd xz < patchesZ s"
proof -
  from assms obtain z x where "z < unat (patchesZ s)" "x < unat (patchesX s)"
    "xz = (of_nat x, of_nat z)"
    unfolding patchCoords_def in_set_grid by blast
  then show ?thesis using of_nat_less_word(1) by simp
qed

lemma patchCoords_distinct: "distinct (patchCoords s)"
proof -
  have "inj_on (\<lambda>zx. (of_nat (snd zx) :: u32, of_nat (fst zx) :: u32))
          (set (List.product [0..<unat (patchesZ s)] [0..<unat (patchesX s)]))"
  proof (rule inj_onI)
    fix a b :: "nat \<times> nat"
    assume a: "a \<in> set (List.product [0..<unat (patchesZ s)] [0..<unat (patchesX s)])"
      and b: "b \<in> set (List.product [0..<unat (patchesZ s)] [0..<unat (patchesX s)])"
      and e: "(of_nat (snd a) :: u32, of_nat (fst a) :: u32) = (of_nat (snd b), of_nat (fst b))"
    have "unat (of_nat (snd a) :: u32) = snd a" "unat (of_nat (snd b) :: u32) = snd b"
      "unat (of_nat (fst a) :: u32) = fst a" "unat (of_nat (fst b) :: u32) = fst b"
      using a b of_nat_less_word(2) by auto
    then have "snd a = snd b" "fst a = fst b" using e by (metis prod.inject)+
    then show "a = b" by (simp add: prod_eq_iff)
  qed
  then show ?thesis
    by (simp add: patchCoords_product distinct_map distinct_product)
qed

lemma createPatches_built:
  assumes nd: "node s = Some nd" and cons: "sceneConsistent s" and kept: "patchNodesKept s"
    and empty: "patches s = []"
  shows "\<exists>s'. createPatches pf s = Some s' \<and>
           (\<exists>nd' objs'. s' = s\<lparr>node := Some nd', patchObjects := objs', patches := patches s'\<rparr>) \<and>
           sceneConsistent s' \<and> patchNodesKept s' \<and>
           list_all2 (patchPlaced pf s') (patchCoords s) (patches s')"
proof -
  define P where "P ds t \<longleftrightarrow>
      (\<exists>nd' objs'. t = s\<lparr>node := Some nd', patchObjects := objs', patches := patches t\<rparr>) \<and>
      sceneConsistent t \<and> patchNodesKept t \<and> list_all2 (patchPlaced pf t) ds (patches t)"
    for ds t
  have base: "P [] s"
    unfolding P_def using nd cons kept empty by (auto intro!: exI [of _ nd] exI [of _ "patchObjects s"])
  have step: "\<exists>t'. createPatch pf t x = Some t' \<and> P (ds @ [x]) t'"
    if split: "patchCoords s = ds @ x # ys" and p: "P ds t" for ds x ys t
  proof -
    from p obtain nd1 objs1 where t: "t = s\<lparr>node := Some nd1, patchObjects := objs1, patches := patches t\<rparr>"
      and c: "sceneConsistent t" and k: "patchNodesKept t"
      and pl: "list_all2 (patchPlaced pf t) ds (patches t)"
      unfolding P_def by blast
    have ndt: "node t = Some nd1" by (subst t) simp
    have px: "patchesX t = patchesX s" "patchesZ t = patchesZ s" by (subst t, simp)+
    have "x \<in> set (patchCoords s)" using split by simp
    then have inr: "fst x < patchesX t" "snd x < patchesZ t"
      using patchCoords_member [of x s] px by simp_all
    have "distinct (ds @ x # ys)" using patchCoords_distinct [of s] split by simp
    then have notin: "x \<notin> set ds" by simp
    from createPatch_step [OF ndt c k inr, of pf]
    obtain t' a nd' objs' where t': "createPatch pf t x = Some t'"
      and fr: "t' = t\<lparr>node := Some nd', patchObjects := objs', patches := patches t @ [a]\<rparr>"
      and c': "sceneConsistent t'" and k': "patchNodesKept t'"
      and pa: "patchPlaced pf t' x a"
      and pres: "\<forall>xz' a'. xz' \<noteq> x \<longrightarrow> patchPlaced pf t xz' a' \<longrightarrow> patchPlaced pf t' xz' a'"
      by blast
    have pt': "patches t' = patches t @ [a]" by (subst fr) simp
    have "list_all2 (patchPlaced pf t') ds (patches t)"
      using pl
    proof (rule list.rel_mono_strong)
      fix xz' a'
      assume "xz' \<in> set ds" and pl': "patchPlaced pf t xz' a'"
      then have ne: "xz' \<noteq> x" using notin by auto
      from pres [rule_format, OF ne pl'] show "patchPlaced pf t' xz' a'" .
    qed
    then have "list_all2 (patchPlaced pf t') (ds @ [x]) (patches t')"
      using pa by (simp add: pt' list_all2_appendI)
    moreover have "\<exists>nd'' objs''. t' = s\<lparr>node := Some nd'', patchObjects := objs'', patches := patches t'\<rparr>"
    proof -
      have e1: "t' = t\<lparr>node := Some nd', patchObjects := objs', patches := patches t'\<rparr>"
        using fr pt' by simp
      from t have "t\<lparr>node := Some nd', patchObjects := objs', patches := patches t'\<rparr>
          = (s\<lparr>node := Some nd1, patchObjects := objs1, patches := patches t\<rparr>)
              \<lparr>node := Some nd', patchObjects := objs', patches := patches t'\<rparr>"
        by (rule arg_cong)
      also have "\<dots> = s\<lparr>node := Some nd', patchObjects := objs', patches := patches t'\<rparr>"
        by simp
      finally show ?thesis using e1 by metis
    qed
    ultimately have "P (ds @ [x]) t'" unfolding P_def using c' k' by blast
    with t' show ?thesis by blast
  qed
  have "\<exists>s'. foldM (createPatch pf) s (patchCoords s) = Some s' \<and> P (patchCoords s) s'"
  proof (rule foldM_prefix)
    show "P [] s" by (rule base)
  next
    fix ds x ys t
    assume "patchCoords s = ds @ x # ys" "P ds t"
    then show "\<exists>t'. createPatch pf t x = Some t' \<and> P (ds @ [x]) t'" by (rule step)
  qed
  then obtain s' where "foldM (createPatch pf) s (patchCoords s) = Some s'" "P (patchCoords s) s'"
    by blast
  then show ?thesis unfolding createPatches_def P_def by blast
qed

lemma patchPlaced_cong:
  assumes "node s' = node s" "patchObjects s' = patchObjects s"
    "patchWorldOrigin s' = patchWorldOrigin s" "patchWorldSize s' = patchWorldSize s"
    "configurePatch s' = configurePatch s"
  shows "patchPlaced pf s' = patchPlaced pf s"
  using assms by (intro ext) (auto simp: patchPlaced_def patchPosition_def split: option.splits)

lemma createPatches_noop:
  assumes "list_all2 (patchPlaced pf s) (patchCoords s) as" "patches s = []"
  shows "createPatches pf s = Some (s\<lparr>patches := as\<rparr>)"
proof -
  have "foldM (createPatch pf) t cs = Some (t\<lparr>patches := patches t @ bs\<rparr>)"
    if "list_all2 (patchPlaced pf t) cs bs" for t cs bs
    using that
  proof (induction cs arbitrary: t bs)
    case Nil
    then show ?case by simp
  next
    case (Cons c cs)
    then obtain b bs' where bs: "bs = b # bs'" "patchPlaced pf t c b"
      "list_all2 (patchPlaced pf t) cs bs'"
      by (auto simp: list_all2_Cons1)
    let ?t = "t\<lparr>patches := patches t @ [b]\<rparr>"
    have "patchPlaced pf ?t = patchPlaced pf t"
      by (rule patchPlaced_cong) (simp_all add: configurePatch_def fun_eq_iff)
    then have "list_all2 (patchPlaced pf ?t) cs bs'" using bs(3) by simp
    from Cons.IH [OF this] createPatch_noop [OF bs(2)] show ?case
      by (simp add: bs(1))
  qed
  from this [OF assms(1)] assms(2) show ?thesis by (simp add: createPatches_def)
qed

section \<open>Removing old patch nodes\<close>

lemma kill_fold:
  "length (foldl (\<lambda>objs c. case childPatch c of None \<Rightarrow> objs | Some a \<Rightarrow> objs[a := None]) objs cs)
     = length objs \<and>
   (\<forall>b < length objs.
      foldl (\<lambda>objs c. case childPatch c of None \<Rightarrow> objs | Some a \<Rightarrow> objs[a := None]) objs cs ! b
        = (if b \<in> set (componentAddresses cs) then None else objs ! b))"
proof (induction cs arbitrary: objs)
  case Nil
  then show ?case by (simp add: componentAddresses_def)
next
  case (Cons c cs)
  show ?case
  proof (cases "childPatch c")
    case None
    then show ?thesis using Cons.IH [of objs] by (simp add: componentAddresses_Cons)
  next
    case (Some a)
    then show ?thesis
      using Cons.IH [of "objs[a := None]"]
      by (auto simp: componentAddresses_Cons nth_list_update)
  qed
qed

lemma componentAddresses_filter_subset:
  "set (componentAddresses (filter P cs)) \<subseteq> set (componentAddresses cs)"
  by (induction cs) (auto simp: componentAddresses_Cons componentAddresses_def)

lemma componentAddresses_filter:
  assumes "distinct (componentAddresses cs)"
  shows "distinct (componentAddresses (filter P cs)) \<and>
         set (componentAddresses (filter P cs)) \<subseteq> set (componentAddresses cs) \<and>
         set (componentAddresses (filter P cs)) \<inter> set (componentAddresses (filter (\<lambda>c. \<not> P c) cs)) = {}"
  using assms
proof (induction cs)
  case Nil
  then show ?case by (simp add: componentAddresses_def)
next
  case (Cons c cs)
  then show ?case
    using componentAddresses_filter_subset [of P cs]
      componentAddresses_filter_subset [of "\<lambda>c. \<not> P c" cs]
    by (cases "childPatch c") (auto simp: componentAddresses_Cons)
qed

lemma removeOldPatchNodes_props:
  assumes nd: "node s = Some nd" and cons: "sceneConsistent s"
  shows "\<exists>nd' objs'. removeOldPatchNodes s = s\<lparr>node := Some nd', patchObjects := objs'\<rparr>"
    and "sceneConsistent (removeOldPatchNodes s)"
    and "patchNodesKept (removeOldPatchNodes s)"
proof -
  let ?keep = "\<lambda>c. \<not> (childPatch c \<noteq> None \<and> \<not> patchNodeOk s (childName c))"
  let ?cs' = "filter ?keep (children nd)"
  let ?removed = "filter (\<lambda>c. childPatch c \<noteq> None \<and> \<not> patchNodeOk s (childName c)) (children nd)"
  let ?objs' = "foldl (\<lambda>objs c. case childPatch c of None \<Rightarrow> objs | Some a \<Rightarrow> objs[a := None])
                  (patchObjects s) ?removed"
  have r: "removeOldPatchNodes s = s\<lparr>node := Some (nd\<lparr>children := ?cs'\<rparr>), patchObjects := ?objs'\<rparr>"
    by (simp add: removeOldPatchNodes_def nd Let_def)
  show "\<exists>nd' objs'. removeOldPatchNodes s = s\<lparr>node := Some nd', patchObjects := objs'\<rparr>"
    using r by blast
  have d: "distinct (componentAddresses (children nd))"
    and l: "\<forall>a \<in> set (componentAddresses (children nd)). a < length (patchObjects s) \<and> patchObjects s ! a \<noteq> None"
    using cons nd by (simp_all add: sceneConsistent_def list_all_iff)
  note f = componentAddresses_filter [OF d, of ?keep]
  have rm: "?removed = filter (\<lambda>c. \<not> ?keep c) (children nd)" by simp
  note kf = kill_fold [of "patchObjects s" ?removed]
  have "a < length ?objs' \<and> ?objs' ! a \<noteq> None" if "a \<in> set (componentAddresses ?cs')" for a
  proof -
    have in_old: "a \<in> set (componentAddresses (children nd))" using that f by blast
    have "a \<notin> set (componentAddresses ?removed)"
      using that f unfolding rm by blast
    then show ?thesis using kf l in_old by simp
  qed
  then show "sceneConsistent (removeOldPatchNodes s)"
    using f by (simp add: r sceneConsistent_def list_all_iff)
  have "patchNodeOk (removeOldPatchNodes s) = patchNodeOk s"
    by (rule patchNodeOk_frame) (simp_all add: r)
  then show "patchNodesKept (removeOldPatchNodes s)"
    by (simp add: r patchNodesKept_def list_all_iff)
qed

lemma removeOldPatchNodes_noop:
  assumes "patchNodesKept s"
  shows "removeOldPatchNodes s = s"
proof (cases "node s")
  case None
  then show ?thesis by (simp add: removeOldPatchNodes_def)
next
  case (Some nd)
  have k: "\<forall>c \<in> set (children nd). childPatch c = None \<or> patchNodeOk s (childName c)"
    using assms Some by (simp add: patchNodesKept_def list_all_iff)
  then have a: "filter (\<lambda>c. \<not> (childPatch c \<noteq> None \<and> \<not> patchNodeOk s (childName c))) (children nd)
      = children nd"
    by (simp add: filter_id_conv)
  have b: "filter (\<lambda>c. childPatch c \<noteq> None \<and> \<not> patchNodeOk s (childName c)) (children nd) = []"
    using k by (auto simp: filter_empty_conv)
  have "removeOldPatchNodes s = s\<lparr>node := Some (nd\<lparr>children := children nd\<rparr>),
                                   patchObjects := patchObjects s\<rparr>"
    unfolding removeOldPatchNodes_def Let_def Some option.case a b by simp
  also have "\<dots> = s" using Some by (cases s) simp
  finally show ?thesis .
qed

section \<open>The geometry of one patch\<close>

lemma row_unat:
  assumes "validPatchSize p"
  shows "unat (p + 1) = unat p + 1"
    and "unat ((p + 1) * (p + 1)) = (unat p + 1) * (unat p + 1)"
    and "unat (p * p * 6) = unat p * unat p * 6"
proof -
  note b = validPatchSize_unat [OF assms]
  have one: "unat (1::u32) = 1" and six: "unat (6::u32) = 6" by simp_all
  have "unat p + unat (1::u32) < 2 ^ LENGTH(32)" using b by (simp add: one)
  then have "unat (p + 1) = unat p + unat (1::u32)" by (rule unat_add_lem [THEN iffD1])
  then show r: "unat (p + 1) = unat p + 1" by (simp only: one)
  have "(unat p + 1) * (unat p + 1) \<le> 129 * 129"
    using b by (intro mult_le_mono) simp_all
  then have "unat (p + 1) * unat (p + 1) < 2 ^ LENGTH(32)" by (simp add: r)
  then have "unat ((p + 1) * (p + 1)) = unat (p + 1) * unat (p + 1)"
    by (rule unat_mult_lem [THEN iffD1])
  then show "unat ((p + 1) * (p + 1)) = (unat p + 1) * (unat p + 1)"
    by (simp only: r)
  have pp: "unat p * unat p \<le> 128 * 128" using b by (intro mult_le_mono) simp_all
  then have "unat p * unat p < 2 ^ LENGTH(32)" by simp
  then have m: "unat (p * p) = unat p * unat p" by (rule unat_mult_lem [THEN iffD1])
  have "unat (p * p) * unat (6::u32) < 2 ^ LENGTH(32)" using pp by (simp add: m six)
  then have "unat (p * p * 6) = unat (p * p) * unat (6::u32)" by (rule unat_mult_lem [THEN iffD1])
  then show "unat (p * p * 6) = unat p * unat p * 6" by (simp only: m six)
qed

lemma patchVertex_total:
  assumes "heightFieldOk s"
  shows "\<exists>v. patchVertex pf s x z x1 z1 = Some v"
proof -
  obtain n where "GetNormal pf s (x * patchSize s + x1) (z * patchSize s + z1) = Some n"
    using GetNormal_total [OF assms] by blast
  then show ?thesis
    by (simp add: patchVertex_def GetRawHeight_SampleRaw [OF assms] Let_def)
qed

lemma patchVertices_total:
  assumes "heightFieldOk s"
  shows "\<exists>vs. patchVertices pf s x z = Some vs"
proof -
  have "\<exists>vs. those (concat (map (\<lambda>z1. map (\<lambda>x1. patchVertex pf s x z (of_nat x1) (of_nat z1))
                                  [0..<unat (patchSize s) + 1])
                        [0..<unat (patchSize s) + 1])) = Some vs \<and> length vs = length (concat (map (\<lambda>z1. map (\<lambda>x1. patchVertex pf s x z (of_nat x1) (of_nat z1))
                                  [0..<unat (patchSize s) + 1])
                        [0..<unat (patchSize s) + 1]))"
  proof (rule those_all_Some)
    fix e
    assume "e \<in> set (concat (map (\<lambda>z1. map (\<lambda>x1. patchVertex pf s x z (of_nat x1) (of_nat z1))
                                  [0..<unat (patchSize s) + 1])
                        [0..<unat (patchSize s) + 1]))"
    then obtain z1 x1 where "e = patchVertex pf s x z (of_nat x1) (of_nat z1)"
      unfolding in_set_grid by blast
    then show "e \<noteq> None" using patchVertex_total [OF assms, of pf x z "of_nat x1" "of_nat z1"] by auto
  qed
  then show ?thesis unfolding patchVertices_def by blast
qed

lemma patchVertex_cong:
  assumes "patchSize s' = patchSize s" "heightData s' = heightData s"
    "terrainSize s' = terrainSize s" "spacing s' = spacing s"
  shows "patchVertex pf s' x z x1 z1 = patchVertex pf s x z x1 z1"
  by (simp add: patchVertex_def assms GetRawHeight_cong [OF assms(2,3)] GetNormal_cong [OF assms(2,3)])

lemma patchVertices_cong:
  assumes "patchSize s' = patchSize s" "heightData s' = heightData s"
    "terrainSize s' = terrainSize s" "spacing s' = spacing s"
  shows "patchVertices pf s' x z = patchVertices pf s x z"
  by (simp add: patchVertices_def assms(1) patchVertex_cong [OF assms])

lemma patchGeometry_cong:
  assumes "patchSize s' = patchSize s" "heightData s' = heightData s"
    "terrainSize s' = terrainSize s" "spacing s' = spacing s"
    "ibIndexCount (indexBuffer s') = ibIndexCount (indexBuffer s)"
  shows "patchGeometry pf s' patch = patchGeometry pf s patch"
  by (simp add: patchGeometry_def Let_def assms(1,5) patchVertices_cong [OF assms(1-4)])

lemma patchGeometry_total:
  assumes "heightFieldOk s" "validPatchSize (patchSize s)"
  shows "\<exists>p'. patchGeometry pf s patch = Some p'"
proof -
  let ?rr = "(patchSize s + 1) * (patchSize s + 1)"
  have rr: "(unat (patchSize s) + 1) * (unat (patchSize s) + 1) \<le> unat ?rr"
    using row_unat(2) [OF assms(2)] by simp
  obtain vs where vs: "patchVertices pf s (patchX patch) (patchZ patch) = Some vs"
    using patchVertices_total [OF assms(1)] by blast
  show ?thesis
    using rr vs by (simp add: patchGeometry_def Let_def)
qed

lemma patchGeometry_cases:
  assumes g: "patchGeometry pf s patch = Some p'"
    and p1: "patch1 = (if vbVertexCount patch \<noteq> (patchSize s + 1) * (patchSize s + 1)
                then patch\<lparr>vbVertexCount := (patchSize s + 1) * (patchSize s + 1), vbData := []\<rparr>
                else patch)"
  shows "(lockVertexBuffer pf \<and>
            (unat (patchSize s) + 1) * (unat (patchSize s) + 1) \<le> unat ((patchSize s + 1) * (patchSize s + 1)) \<and>
            (\<exists>vs. patchVertices pf s (patchX patch) (patchZ patch) = Some vs \<and>
               p' = patch1\<lparr>vbData := concat (map fst vs), vbDataLost := False,
                           patchBoundingBox := foldl Merge BoxUndefined (map snd vs),
                           geomIndexBuffer := Some SharedIndexBuffer,
                           geomDrawRange := (0, ibIndexCount (indexBuffer s)),
                           geomRawVertexData := concat (map (\<lambda>v. [vx (snd v), vy (snd v), vz (snd v)]) vs),
                           patchDirty := True\<rparr>)) \<or>
         (\<not> lockVertexBuffer pf \<and>
            p' = patch1\<lparr>patchBoundingBox := BoxUndefined,
                        geomIndexBuffer := Some SharedIndexBuffer,
                        geomDrawRange := (0, ibIndexCount (indexBuffer s)),
                        geomRawVertexData := [],
                        patchDirty := True\<rparr>)"
proof -
  have c1: "vbVertexCount patch1 = (patchSize s + 1) * (patchSize s + 1)"
    and x1: "patchX patch1 = patchX patch" "patchZ patch1 = patchZ patch"
    by (simp_all add: p1)
  have g': "(if lockVertexBuffer pf then
               (if (unat (patchSize s) + 1) * (unat (patchSize s) + 1) \<le> unat (vbVertexCount patch1)
                then Option.bind (patchVertices pf s (patchX patch1) (patchZ patch1))
                       (\<lambda>vs. Some (patch1\<lparr>vbData := concat (map fst vs), vbDataLost := False\<rparr>,
                                   foldl Merge BoxUndefined (map snd vs),
                                   concat (map (\<lambda>v. [vx (snd v), vy (snd v), vz (snd v)]) vs)))
                else None)
             else Some (patch1, BoxUndefined, []))
            \<bind> (\<lambda>(patch, box, positionData).
                   Some (patch\<lparr>patchBoundingBox := box,
                               geomIndexBuffer := Some SharedIndexBuffer,
                               geomDrawRange := (0, ibIndexCount (indexBuffer s)),
                               geomRawVertexData := positionData,
                               patchDirty := True\<rparr>)) = Some p'"
    using g unfolding patchGeometry_def Let_def p1 .
  show ?thesis
  proof (cases "lockVertexBuffer pf")
    case False
    then show ?thesis using g' by simp
  next
    case True
    show ?thesis
    proof (cases "(unat (patchSize s) + 1) * (unat (patchSize s) + 1) \<le> unat (vbVertexCount patch1)")
      case False
      then show ?thesis using g' True by simp
    next
      case le: True
      show ?thesis
      proof (cases "patchVertices pf s (patchX patch1) (patchZ patch1)")
        case None
        then show ?thesis using g' True le by simp
      next
        case (Some vs)
        then have "p' = patch1\<lparr>vbData := concat (map fst vs), vbDataLost := False,
                           patchBoundingBox := foldl Merge BoxUndefined (map snd vs),
                           geomIndexBuffer := Some SharedIndexBuffer,
                           geomDrawRange := (0, ibIndexCount (indexBuffer s)),
                           geomRawVertexData := concat (map (\<lambda>v. [vx (snd v), vy (snd v), vz (snd v)]) vs),
                           patchDirty := True\<rparr>"
          using g' True le by simp
        then show ?thesis using True le Some by (simp only: c1 x1) blast
      qed
    qed
  qed
qed

lemma patchGeometry_updates:
  assumes "patchGeometry pf s patch = Some p'"
  shows "\<exists>vc vd dl bb ib dr rv d.
           p' = patch\<lparr>vbVertexCount := vc, vbData := vd, vbDataLost := dl, patchBoundingBox := bb,
                      geomIndexBuffer := ib, geomDrawRange := dr, geomRawVertexData := rv,
                      patchDirty := d\<rparr>"
proof -
  define patch1 where "patch1 = (if vbVertexCount patch \<noteq> (patchSize s + 1) * (patchSize s + 1)
                then patch\<lparr>vbVertexCount := (patchSize s + 1) * (patchSize s + 1), vbData := []\<rparr>
                else patch)"
  have "patch1 = patch\<lparr>vbVertexCount := vbVertexCount patch1, vbData := vbData patch1\<rparr>"
    by (simp add: patch1_def)
  then obtain vc0 vd0 where p1: "patch1 = patch\<lparr>vbVertexCount := vc0, vbData := vd0\<rparr>" by blast
  from patchGeometry_cases [OF assms patch1_def]
  show ?thesis
  proof (elim disjE conjE exE)
    fix vs
    assume "p' = patch1\<lparr>vbData := concat (map fst vs), vbDataLost := False,
                           patchBoundingBox := foldl Merge BoxUndefined (map snd vs),
                           geomIndexBuffer := Some SharedIndexBuffer,
                           geomDrawRange := (0, ibIndexCount (indexBuffer s)),
                           geomRawVertexData := concat (map (\<lambda>v. [vx (snd v), vy (snd v), vz (snd v)]) vs),
                           patchDirty := True\<rparr>"
    then have "p' = patch\<lparr>vbVertexCount := vc0, vbData := concat (map fst vs), vbDataLost := False,
                           patchBoundingBox := foldl Merge BoxUndefined (map snd vs),
                           geomIndexBuffer := Some SharedIndexBuffer,
                           geomDrawRange := (0, ibIndexCount (indexBuffer s)),
                           geomRawVertexData := concat (map (\<lambda>v. [vx (snd v), vy (snd v), vz (snd v)]) vs),
                           patchDirty := True\<rparr>"
      by (simp add: p1)
    then show ?thesis by blast
  next
    assume "p' = patch1\<lparr>patchBoundingBox := BoxUndefined,
                        geomIndexBuffer := Some SharedIndexBuffer,
                        geomDrawRange := (0, ibIndexCount (indexBuffer s)),
                        geomRawVertexData := [],
                        patchDirty := True\<rparr>"
    then have "p' = patch\<lparr>vbVertexCount := vc0, vbData := vd0, vbDataLost := vbDataLost patch,
                        patchBoundingBox := BoxUndefined,
                        geomIndexBuffer := Some SharedIndexBuffer,
                        geomDrawRange := (0, ibIndexCount (indexBuffer s)),
                        geomRawVertexData := [],
                        patchDirty := True\<rparr>"
      by (simp add: p1)
    then show ?thesis by blast
  qed
qed

lemma patchGeometry_result:
  assumes "patchGeometry pf s patch = Some p'"
  shows "vbVertexCount p' = (patchSize s + 1) * (patchSize s + 1)"
    and "geomIndexBuffer p' = Some SharedIndexBuffer"
    and "geomDrawRange p' = (0, ibIndexCount (indexBuffer s))"
    and "patchX p' = patchX patch" and "patchZ p' = patchZ patch"
proof -
  define patch1 where "patch1 = (if vbVertexCount patch \<noteq> (patchSize s + 1) * (patchSize s + 1)
                then patch\<lparr>vbVertexCount := (patchSize s + 1) * (patchSize s + 1), vbData := []\<rparr>
                else patch)"
  have c1: "vbVertexCount patch1 = (patchSize s + 1) * (patchSize s + 1)"
    and x1: "patchX patch1 = patchX patch" "patchZ patch1 = patchZ patch"
    by (simp_all add: patch1_def)
  note c = patchGeometry_cases [OF assms patch1_def]
  show "vbVertexCount p' = (patchSize s + 1) * (patchSize s + 1)"
    using c c1 by (elim disjE conjE exE) simp_all
  show "geomIndexBuffer p' = Some SharedIndexBuffer"
    using c by (elim disjE conjE exE) simp_all
  show "geomDrawRange p' = (0, ibIndexCount (indexBuffer s))"
    using c by (elim disjE conjE exE) simp_all
  show "patchX p' = patchX patch"
    using c x1 by (elim disjE conjE exE) simp_all
  show "patchZ p' = patchZ patch"
    using c x1 by (elim disjE conjE exE) simp_all
qed

lemma patchGeometry_keeps:
  assumes "patchGeometry pf s patch = Some p'" "configurePatch t x z patch = patch"
  shows "configurePatch t x z p' = p'"
proof -
  from patchGeometry_updates [OF assms(1)] obtain vc vd dl bb ib dr rv d where
    p': "p' = patch\<lparr>vbVertexCount := vc, vbData := vd, vbDataLost := dl, patchBoundingBox := bb,
                      geomIndexBuffer := ib, geomDrawRange := dr, geomRawVertexData := rv,
                      patchDirty := d\<rparr>"
    by blast
  have "configurePatch t x z p' = (configurePatch t x z patch)\<lparr>vbVertexCount := vc, vbData := vd,
      vbDataLost := dl, patchBoundingBox := bb, geomIndexBuffer := ib, geomDrawRange := dr,
      geomRawVertexData := rv, patchDirty := d\<rparr>"
    by (simp add: p' configurePatch_def)
  then show ?thesis by (simp only: assms(2) p')
qed

lemma patchGeometry_idem:
  assumes "patchGeometry pf s patch = Some p'"
  shows "patchGeometry pf s p' = Some p'"
proof -
  define patch1 where "patch1 = (if vbVertexCount patch \<noteq> (patchSize s + 1) * (patchSize s + 1)
                then patch\<lparr>vbVertexCount := (patchSize s + 1) * (patchSize s + 1), vbData := []\<rparr>
                else patch)"
  note r = patchGeometry_result [OF assms]
  from patchGeometry_cases [OF assms patch1_def]
  show ?thesis
  proof (elim disjE conjE exE)
    fix vs
    assume l: "lockVertexBuffer pf"
      and le: "(unat (patchSize s) + 1) * (unat (patchSize s) + 1) \<le> unat ((patchSize s + 1) * (patchSize s + 1))"
      and vs: "patchVertices pf s (patchX patch) (patchZ patch) = Some vs"
      and p': "p' = patch1\<lparr>vbData := concat (map fst vs), vbDataLost := False,
                           patchBoundingBox := foldl Merge BoxUndefined (map snd vs),
                           geomIndexBuffer := Some SharedIndexBuffer,
                           geomDrawRange := (0, ibIndexCount (indexBuffer s)),
                           geomRawVertexData := concat (map (\<lambda>v. [vx (snd v), vy (snd v), vz (snd v)]) vs),
                           patchDirty := True\<rparr>"
    have vs': "patchVertices pf s (patchX p') (patchZ p') = Some vs" using vs r(4,5) by simp
    have e: "p'\<lparr>vbData := concat (map fst vs), vbDataLost := False,
                           patchBoundingBox := foldl Merge BoxUndefined (map snd vs),
                           geomIndexBuffer := Some SharedIndexBuffer,
                           geomDrawRange := (0, ibIndexCount (indexBuffer s)),
                           geomRawVertexData := concat (map (\<lambda>v. [vx (snd v), vy (snd v), vz (snd v)]) vs),
                           patchDirty := True\<rparr> = p'"
      by (simp add: p')
    show ?thesis
      unfolding patchGeometry_def Let_def
      using l le vs' r(1) e by simp
  next
    assume l: "\<not> lockVertexBuffer pf"
      and p': "p' = patch1\<lparr>patchBoundingBox := BoxUndefined,
                        geomIndexBuffer := Some SharedIndexBuffer,
                        geomDrawRange := (0, ibIndexCount (indexBuffer s)),
                        geomRawVertexData := [],
                        patchDirty := True\<rparr>"
    have e: "p'\<lparr>patchBoundingBox := BoxUndefined,
                        geomIndexBuffer := Some SharedIndexBuffer,
                        geomDrawRange := (0, ibIndexCount (indexBuffer s)),
                        geomRawVertexData := [],
                        patchDirty := True\<rparr> = p'"
      by (simp add: p')
    show ?thesis
      unfolding patchGeometry_def Let_def
      using l r(1) e by simp
  qed
qed

section \<open>The geometry of all patches\<close>

lemma UpdatePatchGeometry_noop:
  assumes "a < length (patchObjects s)" "patchObjects s ! a = Some p" "patchGeometry pf s p = Some p"
  shows "UpdatePatchGeometry pf s a = Some s"
proof -
  have "(patchObjects s)[a := Some p] = patchObjects s"
    using assms(1,2) by (simp add: list_update_same_conv)
  then show ?thesis using assms by (simp add: UpdatePatchGeometry_def)
qed

lemma updatePatches_noop:
  assumes "\<forall>a \<in> set as. a < length (patchObjects s) \<and>
             (\<exists>p. patchObjects s ! a = Some p \<and> patchGeometry pf s p = Some p)"
  shows "foldM (UpdatePatchGeometry pf) s as = Some s"
  using assms
proof (induction as)
  case Nil
  then show ?case by simp
next
  case (Cons a as)
  then obtain p where "a < length (patchObjects s)" "patchObjects s ! a = Some p"
    "patchGeometry pf s p = Some p"
    by auto
  then have "UpdatePatchGeometry pf s a = Some s" by (rule UpdatePatchGeometry_noop)
  with Cons show ?case by simp
qed

lemma updatePatches_built:
  assumes ok: "heightFieldOk s" "validPatchSize (patchSize s)"
    and live: "\<forall>a \<in> set as. a < length (patchObjects s) \<and> patchObjects s ! a \<noteq> None"
  shows "\<exists>objs'. foldM (UpdatePatchGeometry pf) s as = Some (s\<lparr>patchObjects := objs'\<rparr>) \<and>
           length objs' = length (patchObjects s) \<and>
           (\<forall>b < length (patchObjects s).
              (b \<in> set as \<longrightarrow> (\<exists>p p'. patchObjects s ! b = Some p \<and> patchGeometry pf s p = Some p' \<and>
                                       objs' ! b = Some p')) \<and>
              (b \<notin> set as \<longrightarrow> objs' ! b = patchObjects s ! b))"
  using assms
proof (induction as arbitrary: s)
  case Nil
  have "s\<lparr>patchObjects := patchObjects s\<rparr> = s" by simp
  then show ?case by (intro exI [of _ "patchObjects s"]) simp
next
  case (Cons a as)
  let ?objs = "patchObjects s"
  from Cons.prems(3) obtain p where a: "a < length ?objs" "?objs ! a = Some p" by auto
  obtain p' where p': "patchGeometry pf s p = Some p'"
    using patchGeometry_total [OF Cons.prems(1,2)] by blast
  define s1 where "s1 = s\<lparr>patchObjects := ?objs[a := Some p']\<rparr>"
  have u: "UpdatePatchGeometry pf s a = Some s1"
    using a p' by (simp add: UpdatePatchGeometry_def s1_def)
  have ok1: "heightFieldOk s1" "validPatchSize (patchSize s1)"
    using Cons.prems(1,2) by (simp_all add: s1_def heightFieldOk_def split: option.splits)
  have live1: "\<forall>b \<in> set as. b < length (patchObjects s1) \<and> patchObjects s1 ! b \<noteq> None"
    using Cons.prems(3) by (auto simp: s1_def nth_list_update)
  have g1: "patchGeometry pf s1 q = patchGeometry pf s q" for q
    by (rule patchGeometry_cong) (simp_all add: s1_def)
  from Cons.IH [OF ok1 live1] obtain objs' where
    f: "foldM (UpdatePatchGeometry pf) s1 as = Some (s1\<lparr>patchObjects := objs'\<rparr>)"
    and len: "length objs' = length (patchObjects s1)"
    and rel: "\<forall>b < length (patchObjects s1).
              (b \<in> set as \<longrightarrow> (\<exists>p p'. patchObjects s1 ! b = Some p \<and> patchGeometry pf s1 p = Some p' \<and>
                                       objs' ! b = Some p')) \<and>
              (b \<notin> set as \<longrightarrow> objs' ! b = patchObjects s1 ! b)"
    by blast
  have s1': "s1\<lparr>patchObjects := objs'\<rparr> = s\<lparr>patchObjects := objs'\<rparr>" by (simp add: s1_def)
  have res: "foldM (UpdatePatchGeometry pf) s (a # as) = Some (s\<lparr>patchObjects := objs'\<rparr>)"
    using u f s1' by simp
  have len': "length objs' = length ?objs" using len by (simp add: s1_def)
  have "(b \<in> set (a # as) \<longrightarrow> (\<exists>q q'. ?objs ! b = Some q \<and> patchGeometry pf s q = Some q' \<and>
                                       objs' ! b = Some q')) \<and>
        (b \<notin> set (a # as) \<longrightarrow> objs' ! b = ?objs ! b)" if b: "b < length ?objs" for b
  proof -
    have b1: "b < length (patchObjects s1)" using b by (simp add: s1_def)
    note r = rel [rule_format, OF b1]
    show ?thesis
    proof (cases "b = a")
      case True
      have at: "patchObjects s1 ! a = Some p'" using a(1) by (simp add: s1_def)
      have "objs' ! a = Some p'"
      proof (cases "a \<in> set as")
        case True
        with r \<open>b = a\<close> obtain q q' where "patchObjects s1 ! a = Some q"
          "patchGeometry pf s1 q = Some q'" "objs' ! a = Some q'"
          by blast
        then show ?thesis using at patchGeometry_idem [OF p'] by (simp add: g1)
      next
        case False
        with r \<open>b = a\<close> at show ?thesis by simp
      qed
      then show ?thesis using True a(2) p' by simp
    next
      case False
      then have o: "patchObjects s1 ! b = ?objs ! b" by (simp add: s1_def)
      show ?thesis using r False by (simp add: o g1)
    qed
  qed
  then show ?case using res len' by blast
qed

section \<open>The shared index data\<close>

lemma createIndexData_valid:
  assumes "validPatchSize (patchSize s)"
  shows "createIndexData pf s =
           Some (s\<lparr>indexBuffer := (indexBuffer s)
                   \<lparr>ibIndexCount := patchSize s * patchSize s * 6,
                    ibData := (if lockIndexBuffer pf then indexData (patchSize s) else []),
                    ibCommits := ibCommits (indexBuffer s) + (if lockIndexBuffer pf then 1 else 0)\<rparr>\<rparr>)"
  using row_unat(3) [OF assms] by (simp add: createIndexData_def Let_def)

lemma length_concat_blocks:
  assumes "\<And>j. j < n \<Longrightarrow> length (f j) = k"
  shows "length (concat (map f [0..<n])) = k * n"
  using assms by (induction n) simp_all

lemma concat_block:
  assumes len: "\<And>j. j < n \<Longrightarrow> length (f j) = k" and i: "i < n"
  shows "take k (drop (k * i) (concat (map f [0..<n]))) = f i"
  using assms
proof (induction n)
  case 0
  then show ?case by simp
next
  case (Suc n)
  have l: "length (concat (map f [0..<n])) = k * n"
    by (rule length_concat_blocks) (simp add: Suc.prems(1))
  show ?case
  proof (cases "i = n")
    case True
    then show ?thesis using l Suc.prems(1) [of n] by simp
  next
    case False
    then have i: "i < n" using Suc.prems(2) by simp
    then have "Suc i \<le> n" by simp
    then have "k * Suc i \<le> k * n" by (rule mult_le_mono2)
    then have "k * i + k \<le> k * n" by simp
    then have "k \<le> length (drop (k * i) (concat (map f [0..<n])))" using l by simp
    then have "take k (drop (k * i) (concat (map f [0..<Suc n])))
        = take k (drop (k * i) (concat (map f [0..<n])))"
      using l i by simp
    then show ?thesis using Suc.IH [OF _ i] Suc.prems(1) by simp
  qed
qed

lemma length_indexData: "length (indexData p) = unat p * unat p * 6"
proof -
  have "length (concat (map (\<lambda>z. concat (map (\<lambda>x. cellIndices (p + 1) (of_nat x) (of_nat z)) [0..<unat p]))
                 [0..<unat p])) = (6 * unat p) * unat p"
    by (intro length_concat_blocks) (simp add: cellIndices_def)
  then show ?thesis by (simp add: indexData_def)
qed

lemma indexData_cell:
  assumes "x < unat p" "z < unat p"
  shows "take 6 (drop (6 * (z * unat p + x)) (indexData p)) = cellIndices (p + 1) (of_nat x) (of_nat z)"
proof -
  let ?row = "\<lambda>z. concat (map (\<lambda>x. cellIndices (p + 1) (of_nat x) (of_nat z)) [0..<unat p])"
  have rl: "length (?row j) = 6 * unat p" for j
    by (intro length_concat_blocks) (simp add: cellIndices_def)
  have r: "take (6 * unat p) (drop (6 * unat p * z) (indexData p)) = ?row z"
    unfolding indexData_def by (rule concat_block) (simp_all add: rl assms(2))
  have c: "take 6 (drop (6 * x) (?row z)) = cellIndices (p + 1) (of_nat x) (of_nat z)"
    by (rule concat_block) (simp_all add: cellIndices_def assms(1))
  have "6 * x + 6 \<le> 6 * unat p" using assms(1) by simp
  then have "take 6 (drop (6 * x) (take (6 * unat p) (drop (6 * unat p * z) (indexData p))))
      = take 6 (drop (6 * x) (drop (6 * unat p * z) (indexData p)))"
    by (simp add: drop_take min_def)
  then have "take 6 (drop (6 * x + 6 * unat p * z) (indexData p))
      = cellIndices (p + 1) (of_nat x) (of_nat z)"
    using r c by (simp add: add.commute)
  moreover have "6 * x + 6 * unat p * z = 6 * (z * unat p + x)" by (simp add: algebra_simps)
  ultimately show ?thesis by simp
qed

section \<open>A rebuild pass\<close>

lemma sceneConsistent_cong:
  "node s' = node s \<Longrightarrow> patchObjects s' = patchObjects s \<Longrightarrow> sceneConsistent s' = sceneConsistent s"
  by (simp add: sceneConsistent_def split: option.splits)

lemma patchNodesKept_cong:
  "node s' = node s \<Longrightarrow> patchesX s' = patchesX s \<Longrightarrow> patchesZ s' = patchesZ s \<Longrightarrow>
     patchNodesKept s' = patchNodesKept s"
  by (simp add: patchNodesKept_def patchNodeOk_frame [of s' s] split: option.splits)

lemma heightFieldOk_cong:
  "heightData s' = heightData s \<Longrightarrow> terrainSize s' = terrainSize s \<Longrightarrow> heightFieldOk s' = heightFieldOk s"
  by (simp add: heightFieldOk_def split: option.splits)

lemma patchCoords_cong:
  "patchesX s' = patchesX s \<Longrightarrow> patchesZ s' = patchesZ s \<Longrightarrow> patchCoords s' = patchCoords s"
  by (simp add: patchCoords_def)

lemma list_all2_right_member:
  assumes "list_all2 P xs ys" "y \<in> set ys"
  shows "\<exists>x \<in> set xs. P x y"
  using assms by (induction rule: list_all2_induct) auto

lemma patchPlaced_live:
  "patchPlaced pf s xz a \<Longrightarrow> a < length (patchObjects s) \<and> (\<exists>p. patchObjects s ! a = Some p \<and>
      configurePatch s (fst xz) (snd xz) p = p)"
  by (auto simp: patchPlaced_def split: option.splits)

text \<open>The phase "create vertex data for patches", on a state whose patches are in place.\<close>

lemma updatePatches_placed:
  assumes ok: "heightFieldOk s" "validPatchSize (patchSize s)"
    and cons: "sceneConsistent s"
    and pl: "list_all2 (patchPlaced pf s) cs (patches s)"
  shows "\<exists>objs'. foldM (UpdatePatchGeometry pf) s (patches s) = Some (s\<lparr>patchObjects := objs'\<rparr>) \<and>
           sceneConsistent (s\<lparr>patchObjects := objs'\<rparr>) \<and>
           list_all2 (patchPlaced pf (s\<lparr>patchObjects := objs'\<rparr>)) cs (patches s) \<and>
           (\<forall>a \<in> set (patches s). a < length objs' \<and>
              (\<exists>q. objs' ! a = Some q \<and> patchGeometry pf s q = Some q))"
proof -
  let ?objs = "patchObjects s"
  have live: "\<forall>a \<in> set (patches s). a < length ?objs \<and> ?objs ! a \<noteq> None"
  proof
    fix a assume "a \<in> set (patches s)"
    then obtain c where "patchPlaced pf s c a" using list_all2_right_member [OF pl] by blast
    then show "a < length ?objs \<and> ?objs ! a \<noteq> None" using patchPlaced_live by fastforce
  qed
  from updatePatches_built [OF ok live, of pf] obtain objs' where
    f: "foldM (UpdatePatchGeometry pf) s (patches s) = Some (s\<lparr>patchObjects := objs'\<rparr>)"
    and len: "length objs' = length ?objs"
    and rel: "\<forall>b < length ?objs.
              (b \<in> set (patches s) \<longrightarrow> (\<exists>p p'. ?objs ! b = Some p \<and> patchGeometry pf s p = Some p' \<and>
                                       objs' ! b = Some p')) \<and>
              (b \<notin> set (patches s) \<longrightarrow> objs' ! b = ?objs ! b)"
    by blast
  let ?s' = "s\<lparr>patchObjects := objs'\<rparr>"
  have stay: "b < length objs' \<and> objs' ! b \<noteq> None" if "b < length ?objs" "?objs ! b \<noteq> None" for b
    using rel [rule_format, OF that(1)] that len by (cases "b \<in> set (patches s)") auto
  have c': "sceneConsistent ?s'"
    using cons stay by (auto simp: sceneConsistent_def list_all_iff split: option.splits)
  have pl': "patchPlaced pf ?s' c a" if "patchPlaced pf s c a" "a \<in> set (patches s)" for c a
  proof -
    from patchPlaced_live [OF that(1)] obtain p where p: "a < length ?objs" "?objs ! a = Some p"
      "configurePatch s (fst c) (snd c) p = p"
      by blast
    from rel [rule_format, OF p(1)] that(2) p(2) obtain p' where
      p': "patchGeometry pf s p = Some p'" "objs' ! a = Some p'"
      by auto
    have k: "configurePatch s (fst c) (snd c) p' = p'"
      by (rule patchGeometry_keeps [OF p'(1) p(3)])
    have cf: "configurePatch ?s' = configurePatch s" by (simp add: configurePatch_def fun_eq_iff)
    have pp: "patchPosition pf ?s' = patchPosition pf s" by (simp add: patchPosition_def fun_eq_iff)
    show ?thesis
      using that(1) p(1) len p'(2) k
      by (auto simp: patchPlaced_def cf pp split: option.splits)
  qed
  have pl2: "list_all2 (patchPlaced pf ?s') cs (patches s)"
    using pl
  proof (rule list.rel_mono_strong)
    fix c a
    assume "c \<in> set cs" "a \<in> set (patches s)" "patchPlaced pf s c a"
    then show "patchPlaced pf ?s' c a" using pl' by blast
  qed
  have fixp: "a < length objs' \<and> (\<exists>q. objs' ! a = Some q \<and> patchGeometry pf s q = Some q)"
    if "a \<in> set (patches s)" for a
  proof -
    have al: "a < length ?objs" using live that by blast
    from rel [rule_format, OF al] that obtain p p' where
      "patchGeometry pf s p = Some p'" "objs' ! a = Some p'"
      by blast
    then show ?thesis using al len patchGeometry_idem by fastforce
  qed
  show ?thesis using f c' pl2 fixp by blast
qed

lemma CreateGeometry_unfold:
  assumes "node s = Some nd"
    and "sa = s\<lparr>recreateTerrain := False, numLodLevels := lodLoop (patchSize s) 1,
               patchWorldSize := Vector2 (vx (spacing s) * of_unsigned pf (patchSize s))
                                         (vz (spacing s) * of_unsigned pf (patchSize s))\<rparr>"
    and "layoutTerrain pf sa = Some sb"
    and "sc = (removeOldPatchNodes sb)\<lparr>patches := []\<rparr>"
    and "heightMap sc = Some img"
    and "copyHeightData pf sc img = Some sd"
    and "createPatches pf sd = Some se"
    and "createIndexData pf se = Some sf"
    and "foldM (UpdatePatchGeometry pf) sf (patches sf) = Some sg"
  shows "CreateGeometry pf s =
           Some (sg\<lparr>events := events sg @
                   (if patches sg \<noteq> [] \<or> patches s \<noteq> [] then [E_TERRAINCREATED] else [])\<rparr>)"
  using assms by (simp add: CreateGeometry_def Let_def)

lemma CreateGeometry_unfold_none:
  assumes "node s = Some nd"
    and "sa = s\<lparr>recreateTerrain := False, numLodLevels := lodLoop (patchSize s) 1,
               patchWorldSize := Vector2 (vx (spacing s) * of_unsigned pf (patchSize s))
                                         (vz (spacing s) * of_unsigned pf (patchSize s))\<rparr>"
    and "layoutTerrain pf sa = Some sb"
    and "sc = (removeOldPatchNodes sb)\<lparr>patches := []\<rparr>"
    and "heightMap sc = None"
  shows "CreateGeometry pf s =
           Some (sc\<lparr>events := events sc @ (if patches s \<noteq> [] then [E_TERRAINCREATED] else [])\<rparr>)"
  using assms by (simp add: CreateGeometry_def Let_def)

lemma CreateGeometry_detached:
  "node s = None \<Longrightarrow> CreateGeometry pf s = Some (s\<lparr>recreateTerrain := False\<rparr>)"
  by (simp add: CreateGeometry_def Let_def)

lemma CreateGeometry_heightmap:
  fixes s :: "('f::{zero,one,plus,minus,uminus,times,inverse,ord}) Terrain"
  assumes nd: "node s = Some nd" and hm: "heightMap s = Some img"
    and vp: "validPatchSize (patchSize s)" and wf: "wellFormedImage img"
    and cons: "sceneConsistent s"
    and px: "px = (imgWidth img - 1) div patchSize s"
    and pz: "pz = (imgHeight img - 1) div patchSize s"
    and pws: "pws = Vector2 (vx (spacing s) * of_unsigned pf (patchSize s))
                            (vz (spacing s) * of_unsigned pf (patchSize s))"
    and base: "base = s\<lparr>recreateTerrain := False, numLodLevels := lodLoop (patchSize s) 1,
        patchWorldSize := pws, patchesX := px, patchesZ := pz,
        terrainSize := IntVector2 (px * patchSize s + 1) (pz * patchSize s + 1),
        patchWorldOrigin := Vector2 ((- half pf) * of_unsigned pf px * v2x pws)
                                    ((- half pf) * of_unsigned pf pz * v2y pws),
        indexBuffer := (indexBuffer s)
          \<lparr>ibIndexCount := patchSize s * patchSize s * 6,
           ibData := (if lockIndexBuffer pf then indexData (patchSize s) else []),
           ibCommits := ibCommits (indexBuffer s) + (if lockIndexBuffer pf then 1 else 0)\<rparr>\<rparr>"
  shows "\<exists>s1. CreateGeometry pf s = Some s1 \<and>
          (\<exists>vals nd' objs'.
              s1 = base\<lparr>heightData := Some vals, node := Some nd', patchObjects := objs',
                        patches := patches s1,
                        events := events s @ (if patches s1 \<noteq> [] \<or> patches s \<noteq> []
                                              then [E_TERRAINCREATED] else [])\<rparr> \<and>
              those (concat (map (\<lambda>z. map (\<lambda>x. heightSample pf base img x z)
                                           [0..<nat (sint (ivx (terrainSize base)))])
                                 [0..<nat (sint (ivy (terrainSize base)))])) = Some vals) \<and>
          heightFieldOk s1 \<and> sceneConsistent s1 \<and> patchNodesKept s1 \<and>
          list_all2 (patchPlaced pf s1) (patchCoords s1) (patches s1) \<and>
          (\<forall>a \<in> set (patches s1). a < length (patchObjects s1) \<and>
              (\<exists>q. patchObjects s1 ! a = Some q \<and> patchGeometry pf s1 q = Some q))"
proof -
  define sa where "sa = s\<lparr>recreateTerrain := False, numLodLevels := lodLoop (patchSize s) 1,
                          patchWorldSize := pws\<rparr>"
  have sa_f: "node sa = Some nd" "heightMap sa = Some img" "patchSize sa = patchSize s"
    "patchObjects sa = patchObjects s" "patchWorldSize sa = pws"
    by (simp_all add: sa_def nd hm)
  define sx where "sx = px * patchSize s + 1"
  define sy where "sy = pz * patchSize s + 1"
  define org where "org = Vector2 ((- half pf) * of_unsigned pf px * v2x pws)
                                  ((- half pf) * of_unsigned pf pz * v2y pws)"
  define sb where "sb = sa\<lparr>patchesX := px, patchesZ := pz, terrainSize := IntVector2 sx sy,
      patchWorldOrigin := org,
      heightData := Some (replicate (unat sx * unat sy) (uninitialized pf))\<rparr>"
  have vpa: "validPatchSize (patchSize sa)" using vp by (simp add: sa_f)
  have L: "layoutTerrain pf sa = Some sb"
    using layoutTerrain_Some [where s = sa and pf = pf, OF sa_f(2) vpa wf]
    by (simp add: sa_f sb_def px pz sx_def sy_def org_def)
  have sb_f: "node sb = Some nd" "patchObjects sb = patchObjects s"
    by (simp_all add: sb_def sa_f)
  have consb: "sceneConsistent sb"
    using cons sceneConsistent_cong [of sb s] by (simp add: sb_f nd)
  from removeOldPatchNodes_props [OF sb_f(1) consb] obtain ndc objsc where
    R: "removeOldPatchNodes sb = sb\<lparr>node := Some ndc, patchObjects := objsc\<rparr>"
    and Rc: "sceneConsistent (removeOldPatchNodes sb)"
    and Rk: "patchNodesKept (removeOldPatchNodes sb)"
    by blast
  define sc where "sc = (removeOldPatchNodes sb)\<lparr>patches := []\<rparr>"
  have sc_eq: "sc = sb\<lparr>node := Some ndc, patchObjects := objsc, patches := []\<rparr>"
    by (simp add: sc_def R)
  have consc: "sceneConsistent sc"
    using Rc sceneConsistent_cong [of sc "removeOldPatchNodes sb"] by (simp add: sc_def)
  have keptc: "patchNodesKept sc"
    using Rk patchNodesKept_cong [of sc "removeOldPatchNodes sb"] by (simp add: sc_def)
  have hmc: "heightMap sc = Some img" by (simp add: sc_eq sb_def sa_f)
  note vu = validPatchSize_unat [OF vp]
  note b = wellFormedImage_bounds [OF wf]
  have W1: "1 \<le> unat (imgWidth img)" "1 \<le> unat (imgHeight img)"
    using wf by (simp_all add: wellFormedImage_def)
  have p4: "4 \<le> unat (patchSize s)" using vu by simp
  note gx0 = grid_dim [OF p4 W1(1) b(3)]
  note gy0 = grid_dim [OF p4 W1(2) b(4)]
  have gx: "unat sx \<le> unat (imgWidth img)" "sint sx = int (unat sx)" "1 \<le> unat sx"
    using gx0 unfolding sx_def px by simp_all
  have gy: "unat sy \<le> unat (imgHeight img)" "sint sy = int (unat sy)" "1 \<le> unat sy"
    using gy0 unfolding sy_def pz by simp_all
  have ts: "terrainSize sc = IntVector2 sx sy" by (simp add: sc_eq sb_def)
  have hdc: "heightData sc = Some (replicate (unat sx * unat sy) (uninitialized pf))"
    by (simp add: sc_eq sb_def)
  have "\<exists>vals. those (concat (map (\<lambda>z. map (\<lambda>x. heightSample pf sc img x z)
                                           [0..<nat (sint (ivx (terrainSize sc)))])
                                 [0..<nat (sint (ivy (terrainSize sc)))])) = Some vals \<and>
           length vals = length (replicate (unat sx * unat sy) (uninitialized pf)) \<and>
           copyHeightData pf sc img = Some (sc\<lparr>heightData := Some vals\<rparr>)"
    by (rule copyHeightData_Some [OF wf _ _ hdc]) (simp_all add: ts gx gy)
  then obtain vals where
    V: "those (concat (map (\<lambda>z. map (\<lambda>x. heightSample pf sc img x z)
                                           [0..<nat (sint (ivx (terrainSize sc)))])
                                 [0..<nat (sint (ivy (terrainSize sc)))])) = Some vals"
    and lenv: "length vals = unat sx * unat sy"
    and C: "copyHeightData pf sc img = Some (sc\<lparr>heightData := Some vals\<rparr>)"
    by auto
  define sd where "sd = sc\<lparr>heightData := Some vals\<rparr>"
  have sd_f: "node sd = Some ndc" "patches sd = []" by (simp_all add: sd_def sc_eq)
  have consd: "sceneConsistent sd"
    using consc sceneConsistent_cong [of sd sc] by (simp add: sd_def)
  have keptd: "patchNodesKept sd"
    using keptc patchNodesKept_cong [of sd sc] by (simp add: sd_def)
  from createPatches_built [OF sd_f(1) consd keptd sd_f(2), of pf] obtain se nde objse where
    P: "createPatches pf sd = Some se"
    and se0: "se = sd\<lparr>node := Some nde, patchObjects := objse, patches := patches se\<rparr>"
    and conse: "sceneConsistent se" and kepte: "patchNodesKept se"
    and ple: "list_all2 (patchPlaced pf se) (patchCoords sd) (patches se)"
    by blast
  define ps where "ps = patches se"
  have se_eq: "se = sd\<lparr>node := Some nde, patchObjects := objse, patches := ps\<rparr>"
    unfolding ps_def by (rule se0)
  define ib where "ib = (indexBuffer s)
          \<lparr>ibIndexCount := patchSize s * patchSize s * 6,
           ibData := (if lockIndexBuffer pf then indexData (patchSize s) else []),
           ibCommits := ibCommits (indexBuffer s) + (if lockIndexBuffer pf then 1 else 0)\<rparr>"
  define sf where "sf = se\<lparr>indexBuffer := ib\<rparr>"
  have se_f: "patchSize se = patchSize s" "indexBuffer se = indexBuffer s"
    by (simp_all add: se_eq sd_def sc_eq sb_def sa_def)
  have vpe: "validPatchSize (patchSize se)" using vp by (simp add: se_f)
  have I: "createIndexData pf se = Some sf"
    using createIndexData_valid [OF vpe, of pf] by (simp add: sf_def ib_def se_f)
  have sf_eq: "sf = base\<lparr>heightData := Some vals, node := Some nde, patchObjects := objse,
                         patches := ps\<rparr>"
    by (simp add: sf_def se_eq sd_def sc_eq sb_def sa_def base ib_def sx_def sy_def org_def)
  have sf_f: "heightData sf = Some vals" "terrainSize sf = IntVector2 sx sy"
    "patchSize sf = patchSize s" "patches sf = ps" "patchesX sf = px" "patchesZ sf = pz"
    "events sf = events s"
    by (simp_all add: sf_eq base sx_def sy_def)
  have prod: "unat sx * unat sy < 2147483648"
    using mult_le_mono [OF gx(1) gy(1)] b(1) by linarith
  have hf: "heightFieldOk sf"
  proof -
    have a: "sint sx * sint sy = int (unat sx * unat sy)"
      by (simp only: gx(2) gy(2) of_nat_mult)
    have c: "(2::int) ^ 31 = 2147483648" by simp
    have "1 \<le> sint sx" "1 \<le> sint sy"
      unfolding gx(2) gy(2) using gx(3) gy(3) by linarith+
    moreover have "sint sx * sint sy < 2 ^ 31" unfolding a c using prod by linarith
    moreover have "int (length vals) = sint sx * sint sy" unfolding a lenv ..
    ultimately show ?thesis by (simp add: heightFieldOk_def sf_f)
  qed
  have vpf: "validPatchSize (patchSize sf)" using vp by (simp add: sf_f)
  have consf: "sceneConsistent sf"
    using conse sceneConsistent_cong [of sf se] by (simp add: sf_def)
  have keptf: "patchNodesKept sf"
    using kepte patchNodesKept_cong [of sf se] by (simp add: sf_def)
  have cfg: "configurePatch sf = configurePatch se"
    by (intro ext) (simp add: configurePatch_def sf_def)
  have plc: "patchPlaced pf sf = patchPlaced pf se"
    by (rule patchPlaced_cong [OF _ _ _ _ cfg]) (simp_all add: sf_def)
  have pcs: "patchCoords sd = patchCoords sf"
    by (rule patchCoords_cong) (simp_all add: sf_def se_eq)
  have plf: "list_all2 (patchPlaced pf sf) (patchCoords sf) (patches sf)"
    using ple by (simp add: plc pcs sf_f ps_def)
  from updatePatches_placed [OF hf vpf consf plf] obtain objsg where
    U: "foldM (UpdatePatchGeometry pf) sf (patches sf) = Some (sf\<lparr>patchObjects := objsg\<rparr>)"
    and consg: "sceneConsistent (sf\<lparr>patchObjects := objsg\<rparr>)"
    and plg: "list_all2 (patchPlaced pf (sf\<lparr>patchObjects := objsg\<rparr>)) (patchCoords sf) (patches sf)"
    and fixg: "\<forall>a \<in> set (patches sf). a < length objsg \<and>
              (\<exists>q. objsg ! a = Some q \<and> patchGeometry pf sf q = Some q)"
    by blast
  define ev where "ev = events s @ (if ps \<noteq> [] \<or> patches s \<noteq> [] then [E_TERRAINCREATED] else [])"
  define s1 where "s1 = sf\<lparr>patchObjects := objsg, events := ev\<rparr>"
  have CG: "CreateGeometry pf s = Some s1"
    using CreateGeometry_unfold [OF nd sa_def [unfolded pws] L sc_def hmc C [folded sd_def] P I U]
    by (simp add: s1_def ev_def sf_f)
  have s1_f: "patches s1 = ps" "patchObjects s1 = objsg" by (simp_all add: s1_def sf_f)
  have s1_eq: "s1 = base\<lparr>heightData := Some vals, node := Some nde, patchObjects := objsg,
                        patches := patches s1,
                        events := events s @ (if patches s1 \<noteq> [] \<or> patches s \<noteq> []
                                              then [E_TERRAINCREATED] else [])\<rparr>"
    unfolding s1_f by (simp add: s1_def sf_eq ev_def)
  have hsc: "heightSample pf base img = heightSample pf sc img"
    by (rule heightSample_cong) (simp_all add: base sc_eq sb_def sa_def sx_def sy_def)
  have tsb: "terrainSize base = terrainSize sc" by (simp add: base ts sx_def sy_def)
  have V': "those (concat (map (\<lambda>z. map (\<lambda>x. heightSample pf base img x z)
                                           [0..<nat (sint (ivx (terrainSize base)))])
                                 [0..<nat (sint (ivy (terrainSize base)))])) = Some vals"
    unfolding hsc tsb by (rule V)
  have hf1: "heightFieldOk s1"
    using hf heightFieldOk_cong [of s1 sf] by (simp add: s1_def)
  have cons1: "sceneConsistent s1"
    using consg sceneConsistent_cong [of s1 "sf\<lparr>patchObjects := objsg\<rparr>"] by (simp add: s1_def)
  have kept1: "patchNodesKept s1"
    using keptf patchNodesKept_cong [of s1 sf] by (simp add: s1_def)
  have cfg1: "configurePatch s1 = configurePatch (sf\<lparr>patchObjects := objsg\<rparr>)"
    by (intro ext) (simp add: configurePatch_def s1_def)
  have plc1: "patchPlaced pf s1 = patchPlaced pf (sf\<lparr>patchObjects := objsg\<rparr>)"
    by (rule patchPlaced_cong [OF _ _ _ _ cfg1]) (simp_all add: s1_def)
  have pcs1: "patchCoords s1 = patchCoords sf"
    by (rule patchCoords_cong) (simp_all add: s1_def)
  have pl1: "list_all2 (patchPlaced pf s1) (patchCoords s1) (patches s1)"
    using plg by (simp add: plc1 pcs1 s1_f sf_f)
  have pg1: "patchGeometry pf s1 = patchGeometry pf sf"
    by (rule ext, rule patchGeometry_cong) (simp_all add: s1_def)
  have fix1: "\<forall>a \<in> set (patches s1). a < length (patchObjects s1) \<and>
              (\<exists>q. patchObjects s1 ! a = Some q \<and> patchGeometry pf s1 q = Some q)"
    using fixg by (simp add: s1_f sf_f pg1)
  show ?thesis
    using CG s1_eq V' hf1 cons1 kept1 pl1 fix1 by blast
qed

lemma CreateGeometry_no_heightmap:
  fixes s :: "('f::{zero,one,plus,minus,uminus,times,inverse,ord}) Terrain"
  assumes nd: "node s = Some nd" and hm: "heightMap s = None" and cons: "sceneConsistent s"
    and base: "base = s\<lparr>recreateTerrain := False, numLodLevels := lodLoop (patchSize s) 1,
        patchWorldSize := Vector2 (vx (spacing s) * of_unsigned pf (patchSize s))
                                  (vz (spacing s) * of_unsigned pf (patchSize s)),
        patchesX := 0, patchesZ := 0, terrainSize := IntVector2 0 0,
        patchWorldOrigin := Vector2 0 0, heightData := None, patches := []\<rparr>"
  shows "\<exists>s1. CreateGeometry pf s = Some s1 \<and>
          (\<exists>nd' objs'. s1 = base\<lparr>node := Some nd', patchObjects := objs',
                 events := events s @ (if patches s \<noteq> [] then [E_TERRAINCREATED] else [])\<rparr>) \<and>
          sceneConsistent s1 \<and> patchNodesKept s1"
proof -
  define sa where "sa = s\<lparr>recreateTerrain := False, numLodLevels := lodLoop (patchSize s) 1,
               patchWorldSize := Vector2 (vx (spacing s) * of_unsigned pf (patchSize s))
                                         (vz (spacing s) * of_unsigned pf (patchSize s))\<rparr>"
  define sb where "sb = sa\<lparr>patchesX := 0, patchesZ := 0, terrainSize := IntVector2 0 0,
                                  patchWorldOrigin := Vector2 0 0, heightData := None\<rparr>"
  have hma: "heightMap sa = None" by (simp add: sa_def hm)
  have L: "layoutTerrain pf sa = Some sb"
    using layoutTerrain_None [OF hma, of pf] by (simp add: sb_def)
  have sb_f: "node sb = Some nd" "patchObjects sb = patchObjects s"
    by (simp_all add: sb_def sa_def nd)
  have consb: "sceneConsistent sb"
    using cons sceneConsistent_cong [of sb s] by (simp add: sb_f nd)
  from removeOldPatchNodes_props [OF sb_f(1) consb] obtain ndc objsc where
    R: "removeOldPatchNodes sb = sb\<lparr>node := Some ndc, patchObjects := objsc\<rparr>"
    and Rc: "sceneConsistent (removeOldPatchNodes sb)"
    and Rk: "patchNodesKept (removeOldPatchNodes sb)"
    by blast
  define sc where "sc = (removeOldPatchNodes sb)\<lparr>patches := []\<rparr>"
  have sc_eq: "sc = sb\<lparr>node := Some ndc, patchObjects := objsc, patches := []\<rparr>"
    by (simp add: sc_def R)
  have hmc: "heightMap sc = None" by (simp add: sc_eq sb_def sa_def hm)
  define s1 where "s1 = sc\<lparr>events := events sc @ (if patches s \<noteq> [] then [E_TERRAINCREATED] else [])\<rparr>"
  have CG: "CreateGeometry pf s = Some s1"
    using CreateGeometry_unfold_none [OF nd sa_def L sc_def hmc] by (simp add: s1_def)
  have s1_eq: "s1 = base\<lparr>node := Some ndc, patchObjects := objsc,
                 events := events s @ (if patches s \<noteq> [] then [E_TERRAINCREATED] else [])\<rparr>"
    by (simp add: s1_def sc_eq sb_def sa_def base)
  have cons1: "sceneConsistent s1"
    using Rc sceneConsistent_cong [of s1 "removeOldPatchNodes sb"] by (simp add: s1_def sc_def)
  have kept1: "patchNodesKept s1"
    using Rk patchNodesKept_cong [of s1 "removeOldPatchNodes sb"] by (simp add: s1_def sc_def)
  show ?thesis using CG s1_eq cons1 kept1 by blast
qed

text \<open>A rebuild of a terrain that is already built, with the inputs unchanged.\<close>

lemma CreateGeometry_again:
  fixes s :: "('f::{zero,one,plus,minus,uminus,times,inverse,ord}) Terrain"
  assumes nd: "node s = Some nd" and hm: "heightMap s = Some img"
    and vp: "validPatchSize (patchSize s)" and wf: "wellFormedImage img"
    and px: "px = (imgWidth img - 1) div patchSize s"
    and pz: "pz = (imgHeight img - 1) div patchSize s"
    and pws: "pws = Vector2 (vx (spacing s) * of_unsigned pf (patchSize s))
                            (vz (spacing s) * of_unsigned pf (patchSize s))"
    and f: "recreateTerrain s = False" "numLodLevels s = lodLoop (patchSize s) 1"
      "patchWorldSize s = pws" "patchesX s = px" "patchesZ s = pz"
      "terrainSize s = IntVector2 (px * patchSize s + 1) (pz * patchSize s + 1)"
      "patchWorldOrigin s = Vector2 ((- half pf) * of_unsigned pf px * v2x pws)
                                    ((- half pf) * of_unsigned pf pz * v2y pws)"
      "heightData s = Some vals"
    and ibf: "ibIndexCount (indexBuffer s) = patchSize s * patchSize s * 6"
      "ibData (indexBuffer s) = (if lockIndexBuffer pf then indexData (patchSize s) else [])"
    and V: "those (concat (map (\<lambda>z. map (\<lambda>x. heightSample pf s img x z)
                                           [0..<nat (sint (ivx (terrainSize s)))])
                                 [0..<nat (sint (ivy (terrainSize s)))])) = Some vals"
    and kept: "patchNodesKept s"
    and pl: "list_all2 (patchPlaced pf s) (patchCoords s) (patches s)"
    and fixp: "\<forall>a \<in> set (patches s). a < length (patchObjects s) \<and>
              (\<exists>q. patchObjects s ! a = Some q \<and> patchGeometry pf s q = Some q)"
  shows "CreateGeometry pf s =
           Some (s\<lparr>indexBuffer := (indexBuffer s)
                      \<lparr>ibCommits := ibCommits (indexBuffer s) + (if lockIndexBuffer pf then 1 else 0)\<rparr>,
                    events := events s @ (if patches s \<noteq> [] then [E_TERRAINCREATED] else [])\<rparr>)"
proof -
  define sx where "sx = px * patchSize s + 1"
  define sy where "sy = pz * patchSize s + 1"
  have sa: "s = s\<lparr>recreateTerrain := False, numLodLevels := lodLoop (patchSize s) 1,
               patchWorldSize := Vector2 (vx (spacing s) * of_unsigned pf (patchSize s))
                                         (vz (spacing s) * of_unsigned pf (patchSize s))\<rparr>"
    by (rule Terrain.equality) (simp_all add: f pws)
  define sb where "sb = s\<lparr>heightData := Some (replicate (unat sx * unat sy) (uninitialized pf))\<rparr>"
  have L0: "layoutTerrain pf s = Some (s\<lparr>patchesX := px, patchesZ := pz,
      terrainSize := IntVector2 sx sy,
      patchWorldOrigin := Vector2 ((- half pf) * of_unsigned pf px * v2x pws)
                                    ((- half pf) * of_unsigned pf pz * v2y pws),
      heightData := Some (replicate (unat sx * unat sy) (uninitialized pf))\<rparr>)"
    using layoutTerrain_Some [where s = s and pf = pf, OF hm vp wf]
    by (simp add: px pz sx_def sy_def f(3) [unfolded pws] pws)
  have "s\<lparr>patchesX := px, patchesZ := pz,
      terrainSize := IntVector2 sx sy,
      patchWorldOrigin := Vector2 ((- half pf) * of_unsigned pf px * v2x pws)
                                    ((- half pf) * of_unsigned pf pz * v2y pws),
      heightData := Some (replicate (unat sx * unat sy) (uninitialized pf))\<rparr> = sb"
    by (rule Terrain.equality) (simp_all add: sb_def f sx_def sy_def)
  with L0 have L: "layoutTerrain pf s = Some sb" by simp
  have keptb: "patchNodesKept sb"
    using kept patchNodesKept_cong [of sb s] by (simp add: sb_def)
  have R: "removeOldPatchNodes sb = sb" by (rule removeOldPatchNodes_noop [OF keptb])
  define sc where "sc = (removeOldPatchNodes sb)\<lparr>patches := []\<rparr>"
  have sc_eq: "sc = sb\<lparr>patches := []\<rparr>" by (simp add: sc_def R)
  have hmc: "heightMap sc = Some img" by (simp add: sc_eq sb_def hm)
  note vu = validPatchSize_unat [OF vp]
  note b = wellFormedImage_bounds [OF wf]
  have W1: "1 \<le> unat (imgWidth img)" "1 \<le> unat (imgHeight img)"
    using wf by (simp_all add: wellFormedImage_def)
  have p4: "4 \<le> unat (patchSize s)" using vu by simp
  note gx0 = grid_dim [OF p4 W1(1) b(3)]
  note gy0 = grid_dim [OF p4 W1(2) b(4)]
  have gx: "unat sx \<le> unat (imgWidth img)"
    using gx0 unfolding sx_def px by simp_all
  have gy: "unat sy \<le> unat (imgHeight img)"
    using gy0 unfolding sy_def pz by simp_all
  have ts: "terrainSize sc = IntVector2 sx sy" by (simp add: sc_eq sb_def f sx_def sy_def)
  have hdc: "heightData sc = Some (replicate (unat sx * unat sy) (uninitialized pf))"
    by (simp add: sc_eq sb_def)
  have "\<exists>vals. those (concat (map (\<lambda>z. map (\<lambda>x. heightSample pf sc img x z)
                                           [0..<nat (sint (ivx (terrainSize sc)))])
                                 [0..<nat (sint (ivy (terrainSize sc)))])) = Some vals \<and>
           length vals = length (replicate (unat sx * unat sy) (uninitialized pf)) \<and>
           copyHeightData pf sc img = Some (sc\<lparr>heightData := Some vals\<rparr>)"
    by (rule copyHeightData_Some [OF wf _ _ hdc]) (simp_all add: ts gx gy)
  then obtain vals' where
    V': "those (concat (map (\<lambda>z. map (\<lambda>x. heightSample pf sc img x z)
                                           [0..<nat (sint (ivx (terrainSize sc)))])
                                 [0..<nat (sint (ivy (terrainSize sc)))])) = Some vals'"
    and C: "copyHeightData pf sc img = Some (sc\<lparr>heightData := Some vals'\<rparr>)"
    by auto
  have hsc: "heightSample pf sc img = heightSample pf s img"
    by (rule heightSample_cong) (simp_all add: sc_eq sb_def)
  have tsc: "terrainSize sc = terrainSize s" by (simp add: sc_eq sb_def)
  have same: "vals' = vals" using V' V unfolding hsc tsc by simp
  define sd where "sd = s\<lparr>patches := []\<rparr>"
  have "sc\<lparr>heightData := Some vals'\<rparr> = sd"
    by (rule Terrain.equality) (simp_all add: sc_eq sb_def sd_def same f)
  with C have C': "copyHeightData pf sc img = Some sd" by simp
  have cfg: "configurePatch sd = configurePatch s"
    by (intro ext) (simp add: configurePatch_def sd_def)
  have plc: "patchPlaced pf sd = patchPlaced pf s"
    by (rule patchPlaced_cong [OF _ _ _ _ cfg]) (simp_all add: sd_def)
  have pcs: "patchCoords sd = patchCoords s"
    by (rule patchCoords_cong) (simp_all add: sd_def)
  have pld: "list_all2 (patchPlaced pf sd) (patchCoords sd) (patches s)"
    using pl by (simp add: plc pcs)
  have "sd\<lparr>patches := patches s\<rparr> = s"
    by (rule Terrain.equality) (simp_all add: sd_def)
  with createPatches_noop [OF pld, of] have P: "createPatches pf sd = Some s"
    by (simp add: sd_def)
  define sf where "sf = s\<lparr>indexBuffer := (indexBuffer s)
                      \<lparr>ibCommits := ibCommits (indexBuffer s) + (if lockIndexBuffer pf then 1 else 0)\<rparr>\<rparr>"
  have ibe: "(indexBuffer s)
                   \<lparr>ibIndexCount := patchSize s * patchSize s * 6,
                    ibData := (if lockIndexBuffer pf then indexData (patchSize s) else []),
                    ibCommits := ibCommits (indexBuffer s) + (if lockIndexBuffer pf then 1 else 0)\<rparr>
             = (indexBuffer s)
                      \<lparr>ibCommits := ibCommits (indexBuffer s) + (if lockIndexBuffer pf then 1 else 0)\<rparr>"
    by (rule IndexBuffer.equality) (simp_all add: ibf)
  have I: "createIndexData pf s = Some sf"
    using createIndexData_valid [OF vp, of pf] unfolding ibe by (simp add: sf_def)
  have pg: "patchGeometry pf sf = patchGeometry pf s"
    by (rule ext, rule patchGeometry_cong) (simp_all add: sf_def)
  have fixf: "\<forall>a \<in> set (patches sf). a < length (patchObjects sf) \<and>
              (\<exists>q. patchObjects sf ! a = Some q \<and> patchGeometry pf sf q = Some q)"
    using fixp unfolding pg by (simp add: sf_def)
  have U: "foldM (UpdatePatchGeometry pf) sf (patches sf) = Some sf"
    by (rule updatePatches_noop [OF fixf])
  show ?thesis
    using CreateGeometry_unfold [OF nd sa L sc_def hmc C' P I U]
    by (simp add: sf_def)
qed

lemma CreateGeometry_again_none:
  fixes s :: "('f::{zero,one,plus,minus,uminus,times,inverse,ord}) Terrain"
  assumes nd: "node s = Some nd" and hm: "heightMap s = None"
    and f: "recreateTerrain s = False" "numLodLevels s = lodLoop (patchSize s) 1"
      "patchWorldSize s = Vector2 (vx (spacing s) * of_unsigned pf (patchSize s))
                                  (vz (spacing s) * of_unsigned pf (patchSize s))"
      "patchesX s = 0" "patchesZ s = 0" "terrainSize s = IntVector2 0 0"
      "patchWorldOrigin s = Vector2 0 0" "heightData s = None" "patches s = []"
    and kept: "patchNodesKept s"
  shows "CreateGeometry pf s = Some s"
proof -
  have sa: "s = s\<lparr>recreateTerrain := False, numLodLevels := lodLoop (patchSize s) 1,
               patchWorldSize := Vector2 (vx (spacing s) * of_unsigned pf (patchSize s))
                                         (vz (spacing s) * of_unsigned pf (patchSize s))\<rparr>"
    by (rule Terrain.equality) (simp_all add: f)
  have "s\<lparr>patchesX := 0, patchesZ := 0, terrainSize := IntVector2 0 0,
                                  patchWorldOrigin := Vector2 0 0, heightData := None\<rparr> = s"
    by (rule Terrain.equality) (simp_all add: f)
  with layoutTerrain_None [OF hm, of pf] have L: "layoutTerrain pf s = Some s" by simp
  have R: "removeOldPatchNodes s = s" by (rule removeOldPatchNodes_noop [OF kept])
  define sc where "sc = (removeOldPatchNodes s)\<lparr>patches := []\<rparr>"
  have sc_eq: "sc = s" unfolding sc_def R by (rule Terrain.equality) (simp_all add: f)
  have hmc: "heightMap sc = None" by (simp add: sc_eq hm)
  show ?thesis
    using CreateGeometry_unfold_none [OF nd sa L sc_def hmc] by (simp add: sc_eq f)
qed

section \<open>The index data of one cell\<close>

lemma ucast_index:
  assumes "n < 65536"
  shows "unat (ucast (of_nat n :: u32) :: u16) = n"
proof -
  have "(ucast (of_nat n :: u32) :: u16) = of_nat n"
    by (rule bit_word_eqI) (auto simp: bit_simps)
  then show ?thesis using assms by (simp add: unat_of_nat)
qed

lemma cellIndices_unat:
  assumes vp: "validPatchSize p" and x: "x < unat p" and z: "z < unat p"
  shows "map unat (cellIndices (p + 1) (of_nat x) (of_nat z)) =
           [x + (z + 1) * (unat p + 1), x + z * (unat p + 1) + 1, x + z * (unat p + 1),
            x + (z + 1) * (unat p + 1), x + (z + 1) * (unat p + 1) + 1, x + z * (unat p + 1) + 1]"
proof -
  define P where "P = unat p"
  have pP: "p = of_nat P" by (simp add: P_def)
  have P128: "P \<le> 128" using validPatchSize_unat [OF vp] by (simp add: P_def)
  have b1: "(z + 1) * (P + 1) \<le> 128 * 129"
    using mult_le_mono [of "z + 1" 128 "P + 1" 129] z P128 by (simp add: P_def)
  have b0: "z * (P + 1) \<le> (z + 1) * (P + 1)" by simp
  have xb: "x \<le> 127" using x P128 by (simp add: P_def)
  have w1: "(of_nat x + of_nat (z + 1) * (p + 1) :: u32) = of_nat (x + (z + 1) * (P + 1))"
    by (simp add: pP algebra_simps)
  have w2: "(of_nat x + of_nat z * (p + 1) :: u32) = of_nat (x + z * (P + 1))"
    by (simp add: pP algebra_simps)
  have w3: "(of_nat n + 1 :: u32) = of_nat (n + 1)" for n
    by simp
  have n1: "x + (z + 1) * (P + 1) < 65536" using b1 xb by linarith
  have n2: "x + z * (P + 1) < 65536" using b1 b0 xb by linarith
  have n3: "x + z * (P + 1) + 1 < 65536" using b1 b0 xb by linarith
  have n4: "x + (z + 1) * (P + 1) + 1 < 65536" using b1 xb by linarith
  note w = w1 [unfolded P_def] w2 [unfolded P_def]
  note n = n1 [unfolded P_def] n2 [unfolded P_def] n3 [unfolded P_def] n4 [unfolded P_def]
  show ?thesis
    unfolding cellIndices_def list.map w3 w
    by (simp only: ucast_index [OF n(1)] ucast_index [OF n(2)] ucast_index [OF n(3)]
          ucast_index [OF n(4)])
qed

section \<open>The vertex data of one patch\<close>

lemma those_Some_member:
  "those xs = Some ys \<Longrightarrow> y \<in> set ys \<Longrightarrow> Some y \<in> set xs"
proof (induction xs arbitrary: ys)
  case Nil
  then show ?case by simp
next
  case (Cons x xs)
  then show ?case by (auto split: option.splits)
qed

lemma patchVertex_length:
  assumes "patchVertex pf s x z x1 z1 = Some v"
  shows "length (fst v) = 12"
  using assms by (auto simp: patchVertex_def Let_def split: Option.bind_splits)

lemma length_concat_const:
  "(\<And>x. x \<in> set xs \<Longrightarrow> length (f x) = k) \<Longrightarrow> length (concat (map f xs)) = k * length xs"
  by (induction xs) simp_all

lemma patchVertices_length:
  assumes "patchVertices pf s x z = Some vs"
  shows "length vs = (unat (patchSize s) + 1) * (unat (patchSize s) + 1)"
    and "length (concat (map fst vs)) = 12 * ((unat (patchSize s) + 1) * (unat (patchSize s) + 1))"
proof -
  let ?grid = "concat (map (\<lambda>z1. map (\<lambda>x1. patchVertex pf s x z (of_nat x1) (of_nat z1))
                                  [0..<unat (patchSize s) + 1])
                        [0..<unat (patchSize s) + 1])"
  have t: "those ?grid = Some vs" using assms by (simp only: patchVertices_def)
  show l: "length vs = (unat (patchSize s) + 1) * (unat (patchSize s) + 1)"
    using those_Some_length [OF t] by (simp only: length_grid)
  have "length (fst v) = 12" if "v \<in> set vs" for v
  proof -
    from those_Some_member [OF t that] obtain z1 x1 where
      "Some v = patchVertex pf s x z (of_nat x1) (of_nat z1)"
      unfolding in_set_grid by blast
    then show ?thesis using patchVertex_length [of pf s x z "of_nat x1" "of_nat z1" v] by simp
  qed
  then have "length (concat (map fst vs)) = 12 * length vs" by (rule length_concat_const)
  then show "length (concat (map fst vs)) = 12 * ((unat (patchSize s) + 1) * (unat (patchSize s) + 1))"
    by (simp only: l)
qed

lemma patchGeometry_vbData:
  assumes g: "patchGeometry pf s patch = Some p'" and lk: "lockVertexBuffer pf"
  shows "length (vbData p') = 12 * ((unat (patchSize s) + 1) * (unat (patchSize s) + 1))"
proof -
  from patchGeometry_cases [OF g refl] lk obtain vs where
    vs: "patchVertices pf s (patchX patch) (patchZ patch) = Some vs"
    and p': "vbData p' = concat (map fst vs)"
    by auto
  show ?thesis unfolding p' by (rule patchVertices_length(2) [OF vs])
qed

section \<open>Two rebuild passes\<close>

lemma CreateGeometry_built:
  fixes s :: "('f::{zero,one,plus,minus,uminus,times,inverse,ord}) Terrain"
  assumes nd: "node s = Some nd" and hm: "heightMap s = Some img"
    and vp: "validPatchSize (patchSize s)" and wf: "wellFormedImage img"
    and cons: "sceneConsistent s"
  shows "\<exists>s1. CreateGeometry pf s = Some s1 \<and>
      node s1 \<noteq> None \<and> heightMap s1 = Some img \<and> patchSize s1 = patchSize s \<and>
      spacing s1 = spacing s \<and> sceneConsistent s1 \<and>
      unat (patchesX s1) = (unat (imgWidth img) - 1) div unat (patchSize s) \<and>
      unat (patchesZ s1) = (unat (imgHeight img) - 1) div unat (patchSize s) \<and>
      terrainSize s1 = IntVector2 (patchesX s1 * patchSize s + 1) (patchesZ s1 * patchSize s + 1) \<and>
      unat (ivx (terrainSize s1)) = unat (patchesX s1) * unat (patchSize s) + 1 \<and>
      unat (ivy (terrainSize s1)) = unat (patchesZ s1) * unat (patchSize s) + 1 \<and>
      length (patches s1) = unat (patchesX s1) * unat (patchesZ s1) \<and>
      (\<forall>a \<in> set (patches s1). a < length (patchObjects s1) \<and>
          (\<exists>q. patchObjects s1 ! a = Some q \<and>
               vbVertexCount q = (patchSize s + 1) * (patchSize s + 1) \<and>
               geomIndexBuffer q = Some SharedIndexBuffer \<and>
               geomDrawRange q = (0, patchSize s * patchSize s * 6) \<and>
               (lockVertexBuffer pf \<longrightarrow>
                  length (vbData q) = 12 * ((unat (patchSize s) + 1) * (unat (patchSize s) + 1))))) \<and>
      indexBuffer s1 = (indexBuffer s)
          \<lparr>ibIndexCount := patchSize s * patchSize s * 6,
           ibData := (if lockIndexBuffer pf then indexData (patchSize s) else []),
           ibCommits := ibCommits (indexBuffer s) + (if lockIndexBuffer pf then 1 else 0)\<rparr> \<and>
      events s1 = events s @ (if patches s1 \<noteq> [] \<or> patches s \<noteq> [] then [E_TERRAINCREATED] else []) \<and>
      CreateGeometry pf s1 =
        Some (s1\<lparr>indexBuffer := (indexBuffer s1)
                    \<lparr>ibCommits := ibCommits (indexBuffer s1) + (if lockIndexBuffer pf then 1 else 0)\<rparr>,
                  events := events s1 @ (if patches s1 \<noteq> [] then [E_TERRAINCREATED] else [])\<rparr>)"
proof -
  define px where "px = (imgWidth img - 1) div patchSize s"
  define pz where "pz = (imgHeight img - 1) div patchSize s"
  define pws where "pws = Vector2 (vx (spacing s) * of_unsigned pf (patchSize s))
                            (vz (spacing s) * of_unsigned pf (patchSize s))"
  define ib where "ib = (indexBuffer s)
          \<lparr>ibIndexCount := patchSize s * patchSize s * 6,
           ibData := (if lockIndexBuffer pf then indexData (patchSize s) else []),
           ibCommits := ibCommits (indexBuffer s) + (if lockIndexBuffer pf then 1 else 0)\<rparr>"
  define base where "base = s\<lparr>recreateTerrain := False, numLodLevels := lodLoop (patchSize s) 1,
        patchWorldSize := pws, patchesX := px, patchesZ := pz,
        terrainSize := IntVector2 (px * patchSize s + 1) (pz * patchSize s + 1),
        patchWorldOrigin := Vector2 ((- half pf) * of_unsigned pf px * v2x pws)
                                    ((- half pf) * of_unsigned pf pz * v2y pws),
        indexBuffer := ib\<rparr>"
  from CreateGeometry_heightmap [OF nd hm vp wf cons px_def pz_def pws_def base_def [unfolded ib_def], of]
  obtain s1 vals nd' objs' where
    CG: "CreateGeometry pf s = Some s1"
    and s1_eq0: "s1 = base\<lparr>heightData := Some vals, node := Some nd', patchObjects := objs',
                        patches := patches s1,
                        events := events s @ (if patches s1 \<noteq> [] \<or> patches s \<noteq> []
                                              then [E_TERRAINCREATED] else [])\<rparr>"
    and V: "those (concat (map (\<lambda>z. map (\<lambda>x. heightSample pf base img x z)
                                           [0..<nat (sint (ivx (terrainSize base)))])
                                 [0..<nat (sint (ivy (terrainSize base)))])) = Some vals"
    and cons1: "sceneConsistent s1" and kept1: "patchNodesKept s1"
    and pl1: "list_all2 (patchPlaced pf s1) (patchCoords s1) (patches s1)"
    and fix1: "\<forall>a \<in> set (patches s1). a < length (patchObjects s1) \<and>
              (\<exists>q. patchObjects s1 ! a = Some q \<and> patchGeometry pf s1 q = Some q)"
    by blast
  define ps where "ps = patches s1"
  define ev where "ev = events s @ (if ps \<noteq> [] \<or> patches s \<noteq> [] then [E_TERRAINCREATED] else [])"
  have s1_eq: "s1 = base\<lparr>heightData := Some vals, node := Some nd', patchObjects := objs',
                        patches := ps, events := ev\<rparr>"
    unfolding ps_def ev_def by (rule s1_eq0)
  have s1_f: "node s1 = Some nd'" "heightMap s1 = Some img" "patchSize s1 = patchSize s"
    "spacing s1 = spacing s" "recreateTerrain s1 = False"
    "numLodLevels s1 = lodLoop (patchSize s) 1" "patchWorldSize s1 = pws"
    "patchesX s1 = px" "patchesZ s1 = pz"
    "terrainSize s1 = IntVector2 (px * patchSize s + 1) (pz * patchSize s + 1)"
    "patchWorldOrigin s1 = Vector2 ((- half pf) * of_unsigned pf px * v2x pws)
                                    ((- half pf) * of_unsigned pf pz * v2y pws)"
    "heightData s1 = Some vals" "indexBuffer s1 = ib" "events s1 = ev"
    by (simp_all add: s1_eq base_def hm)
  have hs: "heightSample pf s1 img = heightSample pf base img"
    by (rule heightSample_cong) (simp_all add: s1_f base_def)
  have tb: "terrainSize s1 = terrainSize base" by (simp add: s1_f base_def)
  have V1: "those (concat (map (\<lambda>z. map (\<lambda>x. heightSample pf s1 img x z)
                                           [0..<nat (sint (ivx (terrainSize s1)))])
                                 [0..<nat (sint (ivy (terrainSize s1)))])) = Some vals"
    unfolding hs tb by (rule V)
  have again: "CreateGeometry pf s1 =
           Some (s1\<lparr>indexBuffer := (indexBuffer s1)
                      \<lparr>ibCommits := ibCommits (indexBuffer s1) + (if lockIndexBuffer pf then 1 else 0)\<rparr>,
                    events := events s1 @ (if patches s1 \<noteq> [] then [E_TERRAINCREATED] else [])\<rparr>)"
  proof (rule CreateGeometry_again [where px = px and pz = pz and pws = pws and vals = vals
        and img = img and nd = nd'])
    show "those (concat (map (\<lambda>z. map (\<lambda>x. heightSample pf s1 img x z)
                                           [0..<nat (sint (ivx (terrainSize s1)))])
                                 [0..<nat (sint (ivy (terrainSize s1)))])) = Some vals"
      by (rule V1)
    show "patchNodesKept s1" by (rule kept1)
    show "list_all2 (patchPlaced pf s1) (patchCoords s1) (patches s1)" by (rule pl1)
    show "\<forall>a \<in> set (patches s1). a < length (patchObjects s1) \<and>
              (\<exists>q. patchObjects s1 ! a = Some q \<and> patchGeometry pf s1 q = Some q)"
      by (rule fix1)
    show "wellFormedImage img" by (rule wf)
  qed (simp_all add: s1_f vp px_def pz_def pws_def ib_def)
  note vu = validPatchSize_unat [OF vp]
  note b = wellFormedImage_bounds [OF wf]
  have W1: "1 \<le> unat (imgWidth img)" "1 \<le> unat (imgHeight img)"
    using wf by (simp_all add: wellFormedImage_def)
  have p4: "4 \<le> unat (patchSize s)" using vu by simp
  note gx0 = grid_dim [OF p4 W1(1) b(3)]
  note gy0 = grid_dim [OF p4 W1(2) b(4)]
  have ux: "unat (patchesX s1) = (unat (imgWidth img) - 1) div unat (patchSize s)"
    unfolding s1_f px_def by (rule gx0(1))
  have uz: "unat (patchesZ s1) = (unat (imgHeight img) - 1) div unat (patchSize s)"
    unfolding s1_f pz_def by (rule gy0(1))
  have tsz: "terrainSize s1 = IntVector2 (patchesX s1 * patchSize s + 1) (patchesZ s1 * patchSize s + 1)"
    by (simp add: s1_f)
  have usx: "unat (ivx (terrainSize s1)) = unat (patchesX s1) * unat (patchSize s) + 1"
    unfolding ux unfolding s1_f px_def IntVector2.sel by (rule gx0(2))
  have usz: "unat (ivy (terrainSize s1)) = unat (patchesZ s1) * unat (patchSize s) + 1"
    unfolding uz unfolding s1_f pz_def IntVector2.sel by (rule gy0(2))
  have len: "length (patches s1) = unat (patchesX s1) * unat (patchesZ s1)"
    using list_all2_lengthD [OF pl1] by (simp add: length_patchCoords)
  have per: "\<forall>a \<in> set (patches s1). a < length (patchObjects s1) \<and>
          (\<exists>q. patchObjects s1 ! a = Some q \<and>
               vbVertexCount q = (patchSize s + 1) * (patchSize s + 1) \<and>
               geomIndexBuffer q = Some SharedIndexBuffer \<and>
               geomDrawRange q = (0, patchSize s * patchSize s * 6) \<and>
               (lockVertexBuffer pf \<longrightarrow>
                  length (vbData q) = 12 * ((unat (patchSize s) + 1) * (unat (patchSize s) + 1))))"
  proof
    fix a assume "a \<in> set (patches s1)"
    with fix1 obtain q where q: "a < length (patchObjects s1)" "patchObjects s1 ! a = Some q"
      "patchGeometry pf s1 q = Some q"
      by blast
    note r = patchGeometry_result [OF q(3)]
    have "vbVertexCount q = (patchSize s + 1) * (patchSize s + 1)" using r(1) by (simp add: s1_f)
    moreover have "geomDrawRange q = (0, patchSize s * patchSize s * 6)"
      using r(3) by (simp add: s1_f ib_def)
    moreover have "lockVertexBuffer pf \<longrightarrow>
        length (vbData q) = 12 * ((unat (patchSize s) + 1) * (unat (patchSize s) + 1))"
      using patchGeometry_vbData [OF q(3)] by (simp add: s1_f)
    ultimately show "a < length (patchObjects s1) \<and>
          (\<exists>q. patchObjects s1 ! a = Some q \<and>
               vbVertexCount q = (patchSize s + 1) * (patchSize s + 1) \<and>
               geomIndexBuffer q = Some SharedIndexBuffer \<and>
               geomDrawRange q = (0, patchSize s * patchSize s * 6) \<and>
               (lockVertexBuffer pf \<longrightarrow>
                  length (vbData q) = 12 * ((unat (patchSize s) + 1) * (unat (patchSize s) + 1))))"
      using q r(2) by blast
  qed
  have n1: "node s1 \<noteq> None" by (simp add: s1_f)
  have ib1: "indexBuffer s1 = (indexBuffer s)
          \<lparr>ibIndexCount := patchSize s * patchSize s * 6,
           ibData := (if lockIndexBuffer pf then indexData (patchSize s) else []),
           ibCommits := ibCommits (indexBuffer s) + (if lockIndexBuffer pf then 1 else 0)\<rparr>"
    by (simp add: s1_f ib_def)
  have ev1: "events s1 = events s @ (if patches s1 \<noteq> [] \<or> patches s \<noteq> [] then [E_TERRAINCREATED] else [])"
    unfolding s1_f ev_def ps_def ..
  show ?thesis
    using CG n1 s1_f(2) s1_f(3) s1_f(4) cons1 ux uz tsz usx usz len per ib1 ev1 again by blast
qed

lemma CreateGeometry_rebuildable:
  fixes s :: "('f::{zero,one,plus,minus,uminus,times,inverse,ord}) Terrain"
  assumes rb: "rebuildable s"
  shows "\<exists>s1. CreateGeometry pf s = Some s1 \<and>
      heightMap s1 = heightMap s \<and> patchSize s1 = patchSize s \<and> spacing s1 = spacing s \<and>
      events s1 = events s @ (if node s \<noteq> None \<and> (patches s \<noteq> [] \<or> patches s1 \<noteq> [])
                              then [E_TERRAINCREATED] else []) \<and>
      (\<exists>c e. CreateGeometry pf s1 =
                Some (s1\<lparr>indexBuffer := (indexBuffer s1)\<lparr>ibCommits := c\<rparr>, events := e\<rparr>))"
proof (cases "node s")
  case None
  define s1 where "s1 = s\<lparr>recreateTerrain := False\<rparr>"
  have a: "CreateGeometry pf s = Some s1" unfolding s1_def by (rule CreateGeometry_detached [OF None])
  have n1: "node s1 = None" by (simp add: s1_def None)
  have "s1\<lparr>recreateTerrain := False\<rparr> =
          s1\<lparr>indexBuffer := (indexBuffer s1)\<lparr>ibCommits := ibCommits (indexBuffer s1)\<rparr>,
             events := events s1\<rparr>"
    by (simp add: s1_def)
  with CreateGeometry_detached [OF n1, of pf]
  have b: "\<exists>c e. CreateGeometry pf s1 =
                Some (s1\<lparr>indexBuffer := (indexBuffer s1)\<lparr>ibCommits := c\<rparr>, events := e\<rparr>)"
    by metis
  show ?thesis using a b None by (auto simp: s1_def)
next
  case (Some nd)
  from rb have cons: "sceneConsistent s" by (simp add: rebuildable_def)
  show ?thesis
  proof (cases "heightMap s")
    case None
    from CreateGeometry_no_heightmap [OF Some None cons refl, of pf] obtain s1 nd' objs' where
      a: "CreateGeometry pf s = Some s1"
      and e: "s1 = s\<lparr>recreateTerrain := False, numLodLevels := lodLoop (patchSize s) 1,
        patchWorldSize := Vector2 (vx (spacing s) * of_unsigned pf (patchSize s))
                                  (vz (spacing s) * of_unsigned pf (patchSize s)),
        patchesX := 0, patchesZ := 0, terrainSize := IntVector2 0 0,
        patchWorldOrigin := Vector2 0 0, heightData := None, patches := []\<rparr>
          \<lparr>node := Some nd', patchObjects := objs',
                 events := events s @ (if patches s \<noteq> [] then [E_TERRAINCREATED] else [])\<rparr>"
      and k: "patchNodesKept s1"
      by blast
    have again: "CreateGeometry pf s1 = Some s1"
      by (rule CreateGeometry_again_none [OF _ _ _ _ _ _ _ _ _ _ _ k]) (simp_all add: e None)
    have "s1 = s1\<lparr>indexBuffer := (indexBuffer s1)\<lparr>ibCommits := ibCommits (indexBuffer s1)\<rparr>,
             events := events s1\<rparr>"
      by simp
    with again have b: "\<exists>c e. CreateGeometry pf s1 =
                Some (s1\<lparr>indexBuffer := (indexBuffer s1)\<lparr>ibCommits := c\<rparr>, events := e\<rparr>)"
      by metis
    have f: "heightMap s1 = heightMap s" "patchSize s1 = patchSize s" "spacing s1 = spacing s"
      "patches s1 = []"
      "events s1 = events s @ (if patches s \<noteq> [] then [E_TERRAINCREATED] else [])"
      by (simp_all add: e)
    show ?thesis using a b f Some by auto
  next
    case (Some img)
    from rb Some have vp: "validPatchSize (patchSize s)" and wf: "wellFormedImage img"
      by (simp_all add: rebuildable_def)
    from CreateGeometry_built [OF \<open>node s = Some nd\<close> Some vp wf cons, of pf] obtain s1 where
      a: "CreateGeometry pf s = Some s1"
      and f: "heightMap s1 = Some img" "patchSize s1 = patchSize s" "spacing s1 = spacing s"
      and ev: "events s1 = events s @ (if patches s1 \<noteq> [] \<or> patches s \<noteq> [] then [E_TERRAINCREATED] else [])"
      and again: "CreateGeometry pf s1 =
        Some (s1\<lparr>indexBuffer := (indexBuffer s1)
                    \<lparr>ibCommits := ibCommits (indexBuffer s1) + (if lockIndexBuffer pf then 1 else 0)\<rparr>,
                  events := events s1 @ (if patches s1 \<noteq> [] then [E_TERRAINCREATED] else [])\<rparr>)"
      by blast
    have b: "\<exists>c e. CreateGeometry pf s1 =
                Some (s1\<lparr>indexBuffer := (indexBuffer s1)\<lparr>ibCommits := c\<rparr>, events := e\<rparr>)"
      using again by blast
    have ev': "events s1 = events s @ (if node s \<noteq> None \<and> (patches s \<noteq> [] \<or> patches s1 \<noteq> [])
                              then [E_TERRAINCREATED] else [])"
      using ev \<open>node s = Some nd\<close> by auto
    show ?thesis using a b f ev' Some by auto
  qed
qed

section \<open>The example terrain\<close>

lemma validPatchSize_4: "validPatchSize 4"
  by code_simp

lemma wellFormedImage_example: "wellFormedImage exampleImage"
  by (simp add: wellFormedImage_def exampleImage_def)

lemma exampleTerrain_fields:
  "node exampleTerrain = Some exampleNode" "heightMap exampleTerrain = Some exampleImage"
  "patchSize exampleTerrain = 4" "patches exampleTerrain = []" "events exampleTerrain = []"
  "ibCommits (indexBuffer exampleTerrain) = 0"
  by (simp_all add: exampleTerrain_def newTerrain_def)

lemma sceneConsistent_example: "sceneConsistent exampleTerrain"
  by (simp add: sceneConsistent_def exampleTerrain_fields exampleNode_def componentAddresses_def)

lemma rebuildable_example: "rebuildable exampleTerrain"
  by (simp add: rebuildable_def sceneConsistent_example exampleTerrain_fields validPatchSize_4
      wellFormedImage_example)

lemma example_twice:
  "\<exists>s1. CreateGeometry realPlatform exampleTerrain = Some s1 \<and>
      patchSize s1 = 4 \<and> length (patches s1) = 2 \<and> events s1 = [E_TERRAINCREATED] \<and>
      ibCommits (indexBuffer s1) = 1 \<and> unat (ivx (terrainSize s1)) = 9 \<and>
      unat (ivy (terrainSize s1)) = 5 \<and> length (ibData (indexBuffer s1)) = 96 \<and>
      CreateGeometry realPlatform s1 =
        Some (s1\<lparr>indexBuffer := (indexBuffer s1)\<lparr>ibCommits := 2\<rparr>,
                  events := [E_TERRAINCREATED, E_TERRAINCREATED]\<rparr>)"
proof -
  have vp: "validPatchSize (patchSize exampleTerrain)"
    by (simp add: exampleTerrain_fields validPatchSize_4)
  have lk: "lockIndexBuffer realPlatform" by (simp add: realPlatform_def)
  from CreateGeometry_built [OF exampleTerrain_fields(1) exampleTerrain_fields(2) vp
      wellFormedImage_example sceneConsistent_example, of realPlatform]
  obtain s1 where
    a: "CreateGeometry realPlatform exampleTerrain = Some s1"
    and p: "patchSize s1 = patchSize exampleTerrain"
    and ux: "unat (patchesX s1) = (unat (imgWidth exampleImage) - 1) div unat (patchSize exampleTerrain)"
    and uz: "unat (patchesZ s1) = (unat (imgHeight exampleImage) - 1) div unat (patchSize exampleTerrain)"
    and usx: "unat (ivx (terrainSize s1)) = unat (patchesX s1) * unat (patchSize exampleTerrain) + 1"
    and usz: "unat (ivy (terrainSize s1)) = unat (patchesZ s1) * unat (patchSize exampleTerrain) + 1"
    and len: "length (patches s1) = unat (patchesX s1) * unat (patchesZ s1)"
    and ib: "indexBuffer s1 = (indexBuffer exampleTerrain)
          \<lparr>ibIndexCount := patchSize exampleTerrain * patchSize exampleTerrain * 6,
           ibData := (if lockIndexBuffer realPlatform then indexData (patchSize exampleTerrain) else []),
           ibCommits := ibCommits (indexBuffer exampleTerrain) +
                        (if lockIndexBuffer realPlatform then 1 else 0)\<rparr>"
    and ev: "events s1 = events exampleTerrain @
               (if patches s1 \<noteq> [] \<or> patches exampleTerrain \<noteq> [] then [E_TERRAINCREATED] else [])"
    and again: "CreateGeometry realPlatform s1 =
        Some (s1\<lparr>indexBuffer := (indexBuffer s1)
                    \<lparr>ibCommits := ibCommits (indexBuffer s1) + (if lockIndexBuffer realPlatform then 1 else 0)\<rparr>,
                  events := events s1 @ (if patches s1 \<noteq> [] then [E_TERRAINCREATED] else [])\<rparr>)"
    by blast
  have x2: "unat (patchesX s1) = 2" using ux by (simp add: exampleImage_def exampleTerrain_fields)
  have z1: "unat (patchesZ s1) = 1" using uz by (simp add: exampleImage_def exampleTerrain_fields)
  have l2: "length (patches s1) = 2" using len by (simp add: x2 z1)
  then have ne: "patches s1 \<noteq> []" by auto
  have e1: "events s1 = [E_TERRAINCREATED]" using ev ne by (simp add: exampleTerrain_fields)
  have c1: "ibCommits (indexBuffer s1) = 1" by (simp add: ib lk exampleTerrain_fields)
  have d1: "length (ibData (indexBuffer s1)) = 96"
    by (simp add: ib lk exampleTerrain_fields length_indexData)
  have "CreateGeometry realPlatform s1 =
        Some (s1\<lparr>indexBuffer := (indexBuffer s1)\<lparr>ibCommits := 2\<rparr>,
                  events := [E_TERRAINCREATED, E_TERRAINCREATED]\<rparr>)"
    using again by (simp add: c1 lk e1 ne)
  then show ?thesis
    using a p l2 e1 c1 usx usz d1 by (simp add: x2 z1 exampleTerrain_fields)
qed

section \<open>The events of a rebuild pass\<close>

lemma foldM_events:
  assumes "foldM f s xs = Some s'"
    and "\<And>t x t'. f t x = Some t' \<Longrightarrow> events t' = events t"
  shows "events s' = events s"
  using assms(1)
proof (induction xs arbitrary: s)
  case Nil
  then show ?case by simp
next
  case (Cons x xs)
  then obtain t where t: "f s x = Some t" and r: "foldM f t xs = Some s'"
    by (auto split: Option.bind_splits)
  show ?case using Cons.IH [OF r] assms(2) [OF t] by simp
qed

lemma layoutTerrain_events: "layoutTerrain pf s = Some s' \<Longrightarrow> events s' = events s"
  by (auto simp: layoutTerrain_def Let_def split: option.splits if_splits)

lemma removeOldPatchNodes_events: "events (removeOldPatchNodes s) = events s"
  by (simp add: removeOldPatchNodes_def Let_def split: option.splits)

lemma copyHeightData_events: "copyHeightData pf s img = Some s' \<Longrightarrow> events s' = events s"
  by (auto simp: copyHeightData_def split: option.splits if_splits Option.bind_splits)

lemma createPatch_events: "createPatch pf s xz = Some s' \<Longrightarrow> events s' = events s"
  by (auto simp: createPatch_def Let_def split: option.splits if_splits prod.splits)

lemma createPatches_events: "createPatches pf s = Some s' \<Longrightarrow> events s' = events s"
  unfolding createPatches_def by (erule foldM_events) (rule createPatch_events)

lemma createIndexData_events: "createIndexData pf s = Some s' \<Longrightarrow> events s' = events s"
  by (auto simp: createIndexData_def Let_def split: if_splits)

lemma UpdatePatchGeometry_events: "UpdatePatchGeometry pf s a = Some s' \<Longrightarrow> events s' = events s"
  by (auto simp: UpdatePatchGeometry_def split: if_splits option.splits)

lemma updatePatches_events:
  "foldM (UpdatePatchGeometry pf) s as = Some s' \<Longrightarrow> events s' = events s"
  by (erule foldM_events) (rule UpdatePatchGeometry_events)

lemma CreateGeometry_events:
  assumes "CreateGeometry pf s = Some s'"
  shows "events s' = events s @
       (if node s \<noteq> None \<and> (patches s \<noteq> [] \<or> patches s' \<noteq> []) then [E_TERRAINCREATED] else [])"
proof (cases "node s")
  case None
  then show ?thesis using assms by (auto simp: CreateGeometry_def Let_def)
next
  case (Some nd)
  define sa where "sa = s\<lparr>recreateTerrain := False, numLodLevels := lodLoop (patchSize s) 1,
               patchWorldSize := Vector2 (vx (spacing s) * of_unsigned pf (patchSize s))
                                         (vz (spacing s) * of_unsigned pf (patchSize s))\<rparr>"
  define body where "body = (\<lambda>sc. case heightMap sc of
                     Some img \<Rightarrow> do {
                       s \<leftarrow> copyHeightData pf sc img;
                       s \<leftarrow> createPatches pf s;
                       s \<leftarrow> createIndexData pf s;
                       foldM (UpdatePatchGeometry pf) s (patches s)
                     }
                   | None \<Rightarrow> Some sc)"
  have unf: "CreateGeometry pf s = do {
       sb \<leftarrow> layoutTerrain pf sa;
       t \<leftarrow> body ((removeOldPatchNodes sb)\<lparr>patches := []\<rparr>);
       Some (if patches t \<noteq> [] \<or> patches s \<noteq> []
                   then t\<lparr>events := events t @ [E_TERRAINCREATED]\<rparr>
                   else t) }"
    by (simp add: CreateGeometry_def Let_def Some sa_def body_def)
  from assms obtain sb t where
    L: "layoutTerrain pf sa = Some sb"
    and B: "body ((removeOldPatchNodes sb)\<lparr>patches := []\<rparr>) = Some t"
    and R: "s' = (if patches t \<noteq> [] \<or> patches s \<noteq> []
                   then t\<lparr>events := events t @ [E_TERRAINCREATED]\<rparr>
                   else t)"
    unfolding unf by (auto split: Option.bind_splits)
  have eb: "events t = events sc" if "body sc = Some t" for sc
  proof (cases "heightMap sc")
    case None
    then show ?thesis using that by (simp add: body_def)
  next
    case (Some img)
    with that obtain s1 s2 s3 where
      "copyHeightData pf sc img = Some s1" "createPatches pf s1 = Some s2"
      "createIndexData pf s2 = Some s3" "foldM (UpdatePatchGeometry pf) s3 (patches s3) = Some t"
      by (auto simp: body_def split: Option.bind_splits)
    then show ?thesis
      using copyHeightData_events createPatches_events createIndexData_events updatePatches_events
      by metis
  qed
  have "events t = events s"
    using eb [OF B] layoutTerrain_events [OF L]
    by (simp add: removeOldPatchNodes_events sa_def)
  moreover have "patches s' = patches t" using R by auto
  ultimately show ?thesis using R Some by auto
qed

section \<open>The normal from the samples\<close>

lemma sint_succ:
  assumes "sint (w::u32) < 2147483647"
  shows "sint (w + 1) = sint w + 1"
proof -
  have "sint (w + 1) = signed_take_bit 31 (sint w + sint (1::u32))"
    by (simp add: sint_word_ariths)
  also have "sint (1::u32) = 1" by simp
  also have "signed_take_bit 31 (sint w + 1) = sint w + 1"
    using assms sint_bounds32 [of w] by (intro signed_take_bit_int_eq_self) simp_all
  finally show ?thesis .
qed

lemma sint_pred:
  assumes "- 2147483648 < sint (w::u32)"
  shows "sint (w - 1) = sint w - 1"
proof -
  have "sint (w - 1) = signed_take_bit 31 (sint w - sint (1::u32))"
    by (simp add: sint_word_diff)
  also have "sint (1::u32) = 1" by simp
  also have "signed_take_bit 31 (sint w - 1) = sint w - 1"
    using assms sint_bounds32 [of w] by (intro signed_take_bit_int_eq_self) simp_all
  finally show ?thesis .
qed

lemma GetNormal_SampleNormal:
  fixes s :: "('f::{zero,one,plus,minus,uminus}) Terrain"
  assumes ok: "heightFieldOk s"
    and x: "- 2147483648 < sint x" "sint x < 2147483647"
    and z: "- 2147483648 < sint z" "sint z < 2147483647"
  shows "GetNormal pf s x z = Some (SampleNormal pf s (sint x) (sint z))"
  unfolding GetNormal_def SampleNormal_def compass_def slopeVector_def lean_def
  by (simp add: GetRawHeight_SampleRaw [OF ok] Let_def
      sint_succ [OF x(2)] sint_pred [OF x(1)] sint_succ [OF z(2)] sint_pred [OF z(1)])

section \<open>The claims\<close>

text \<open>
  C1. For every world position, \<open>GetHeight\<close> of a terrain that is not attached to a scene
  node is 0; otherwise it is the specification's \<open>QueryHeight\<close>: the point is taken into
  the node's local frame and to fractional grid coordinates, the sum of the two fractional
  parts is compared to 1 to choose one of the two triangles of the cell, the three corner
  heights of that triangle are blended with the weights \<open>(1 - a - b, a, b)\<close>, and the
  blended height is multiplied by the node's vertical world scale and added to its vertical
  world position. \<open>GetHeight\<close> returns a value and no state; on a terrain whose height field
  agrees with its grid size it always returns one.
\<close>

theorem GetHeight_is_QueryHeight:
  "GetHeight pf s worldPos = QueryHeight pf s worldPos \<and>
   (node s = None \<longrightarrow> GetHeight pf s worldPos = Some 0) \<and>
   (heightFieldOk s \<longrightarrow> (\<exists>h. GetHeight pf s worldPos = Some h))"
  using QueryHeight_eq [of pf s worldPos] GetHeight_total [of s pf worldPos]
  by (simp add: GetHeight_def)

theorem GetHeight_is_QueryHeight_witness:
  "GetHeight realPlatform fieldTerrain (Vector3 (1 / 2) 0 (1 / 4)) = Some (45 / 2) \<and>
   GetHeight realPlatform (fieldTerrain\<lparr>node := None\<rparr>) (Vector3 (1 / 2) 0 (1 / 4)) = Some 0"
proof -
  have "QueryHeight realPlatform fieldTerrain (Vector3 (1 / 2) 0 (1 / 4)) = Some (45 / 2)"
    by (simp add: QueryHeight_def fieldTerrain_def newTerrain_def realPlatform_def exampleNode_def
        GetRawHeight_def Clamp_def Let_def)
  then show ?thesis
    using GetHeight_is_QueryHeight [of realPlatform fieldTerrain "Vector3 (1 / 2) 0 (1 / 4)"]
      GetHeight_is_QueryHeight [of realPlatform "fieldTerrain\<lparr>node := None\<rparr>" "Vector3 (1 / 2) 0 (1 / 4)"]
    by (simp add: QueryHeight_def)
qed

text \<open>
  C4. For every pair of coordinates \<open>(x, z)\<close>, read as the \<^verbatim>\<open>int\<close>s that \<open>GetRawHeight\<close>
  casts them to, \<open>GetRawHeight\<close> is the specification's \<open>SampleRaw\<close>: it clamps \<open>x\<close> and
  \<open>z\<close> independently to \<open>[0, dimension - 1]\<close> and looks the height up; so
  \<open>GetRawHeight (-5, z) = GetRawHeight (0, z)\<close> and
  \<open>GetRawHeight (dimX + 5, z) = GetRawHeight (dimX - 1, z)\<close>; and it returns 0 when no
  height field has been built.
\<close>

theorem GetRawHeight_clamps:
  "heightFieldOk s \<Longrightarrow>
     GetRawHeight s x z = Some (SampleRaw s (sint x) (sint z)) \<and>
     GetRawHeight s (- 5) z = GetRawHeight s 0 z \<and>
     (sint (ivx (terrainSize s)) + 5 < 2 ^ 31 \<longrightarrow>
        GetRawHeight s (ivx (terrainSize s) + 5) z = GetRawHeight s (ivx (terrainSize s) - 1) z) \<and>
     (heightData s = None \<longrightarrow> GetRawHeight s x z = Some 0)"
proof -
  assume ok: "heightFieldOk s"
  have a: "GetRawHeight s x z = Some (SampleRaw s (sint x) (sint z))" for x z
    using ok by (rule GetRawHeight_SampleRaw)
  have b: "GetRawHeight s (- 5) z = GetRawHeight s 0 z"
    by (simp add: a SampleRaw_def clampInt_def split: option.splits)
  have c: "GetRawHeight s (ivx (terrainSize s) + 5) z = GetRawHeight s (ivx (terrainSize s) - 1) z"
    if lt: "sint (ivx (terrainSize s)) + 5 < 2 ^ 31"
  proof (cases "heightData s")
    case None
    then show ?thesis by (simp add: GetRawHeight_def)
  next
    case (Some hs)
    with ok have pos: "1 \<le> sint (ivx (terrainSize s))" by (simp add: heightFieldOk_def)
    have "sint (ivx (terrainSize s) + 5) = signed_take_bit 31 (sint (ivx (terrainSize s)) + sint (5::u32))"
      using sint_word_add [of "ivx (terrainSize s)" 5] by simp
    also have "sint (5::u32) = 5" by simp
    also have "signed_take_bit 31 (sint (ivx (terrainSize s)) + 5) = sint (ivx (terrainSize s)) + 5"
      using lt pos by (intro signed_take_bit_int_eq_self) simp_all
    finally have p5: "sint (ivx (terrainSize s) + 5) = sint (ivx (terrainSize s)) + 5" .
    have m1: "sint (ivx (terrainSize s) - 1) = sint (ivx (terrainSize s)) - 1"
      using pos by (rule sint_minus_one)
    show ?thesis by (simp add: a SampleRaw_def clampInt_def p5 m1 Some)
  qed
  have d: "GetRawHeight s x z = Some 0" if "heightData s = None"
    using that by (simp add: GetRawHeight_def)
  show ?thesis using a b c d by blast
qed

theorem GetRawHeight_clamps_witness:
  "GetRawHeight fieldTerrain 1 1 = Some 50 \<and>
   GetRawHeight fieldTerrain (- 5) 1 = Some 40 \<and>
   GetRawHeight fieldTerrain 0 1 = Some 40 \<and>
   GetRawHeight fieldTerrain 8 1 = Some 60 \<and>
   GetRawHeight fieldTerrain 2 1 = Some 60"
proof -
  have ok: "heightFieldOk fieldTerrain"
    by (simp add: heightFieldOk_def fieldTerrain_def newTerrain_def)
  have sz: "ivx (terrainSize fieldTerrain) = 3"
    by (simp add: fieldTerrain_def newTerrain_def)
  have "GetRawHeight fieldTerrain 1 1 = Some 50"
    using GetRawHeight_clamps [OF ok, of 1 1]
    by (simp add: SampleRaw_def clampInt_def fieldTerrain_def newTerrain_def)
  moreover have "GetRawHeight fieldTerrain 0 1 = Some 40"
    using GetRawHeight_clamps [OF ok, of 0 1]
    by (simp add: SampleRaw_def clampInt_def fieldTerrain_def newTerrain_def)
  moreover have "GetRawHeight fieldTerrain 2 1 = Some 60"
    using GetRawHeight_clamps [OF ok, of 2 1]
    by (simp add: SampleRaw_def clampInt_def fieldTerrain_def newTerrain_def)
  moreover have "GetRawHeight fieldTerrain (- 5) 1 = GetRawHeight fieldTerrain 0 1"
    using GetRawHeight_clamps [OF ok, of 0 1] by simp
  moreover have "GetRawHeight fieldTerrain 8 1 = GetRawHeight fieldTerrain 2 1"
    using GetRawHeight_clamps [OF ok, of 0 1] by (simp add: sz)
  ultimately show ?thesis by simp
qed

text \<open>
  C5. For every pair of grid coordinates \<open>(x, z)\<close>, \<open>GetNormal\<close> is the specification's
  \<open>EstimateNormal\<close>: the normalization of the sum of eight slope vectors, one per compass
  direction in the order N, NE, E, SE, S, SW, W, NW, each formed from the height delta of
  that neighbour relative to the center sample, with the Y component 1. On a terrain whose
  height field agrees with its grid size, and at coordinates whose neighbours do not wrap
  around as \<^verbatim>\<open>int\<close>s, the nine heights are the stored samples: the normal is
  \<open>SampleNormal\<close>, computed from \<open>SampleRaw\<close> at the integer coordinates
  \<open>(x + dx, z + dz)\<close>, each clamped into the grid. It depends on the height field and its
  grid size alone: two terrains that agree on them have the same normals.
\<close>

theorem GetNormal_is_EstimateNormal:
  "GetNormal pf s x z = EstimateNormal pf s x z \<and>
   (heightFieldOk s \<and> - 2147483648 < sint x \<and> sint x < 2147483647 \<and>
    - 2147483648 < sint z \<and> sint z < 2147483647 \<longrightarrow>
      GetNormal pf s x z = Some (SampleNormal pf s (sint x) (sint z))) \<and>
   (heightData s' = heightData s \<and> terrainSize s' = terrainSize s \<longrightarrow>
      GetNormal pf s' x z = GetNormal pf s x z) \<and>
   (heightFieldOk s \<longrightarrow> (\<exists>n. GetNormal pf s x z = Some n))"
  using EstimateNormal_eq [of pf s x z] GetNormal_cong [of s' s pf x z] GetNormal_total [of s pf x z]
    GetNormal_SampleNormal [of s x z pf]
  by simp

theorem GetNormal_is_EstimateNormal_witness:
  "GetNormal realPlatform fieldTerrain 1 1 =
     Some (vscale (Vector3 (- 60) 8 (- 90)) (1 / sqrt 11764)) \<and>
   EstimateNormal realPlatform fieldTerrain 1 1 =
     Some (vscale (Vector3 (- 60) 8 (- 90)) (1 / sqrt 11764)) \<and>
   GetNormal realPlatform (fieldTerrain\<lparr>occluder := True\<rparr>) 1 1 =
     Some (vscale (Vector3 (- 60) 8 (- 90)) (1 / sqrt 11764))"
proof -
  have ok: "heightFieldOk fieldTerrain"
    by (simp add: heightFieldOk_def fieldTerrain_def newTerrain_def)
  have same: "heightData (fieldTerrain\<lparr>occluder := True\<rparr>) = heightData fieldTerrain \<and>
      terrainSize (fieldTerrain\<lparr>occluder := True\<rparr>) = terrainSize fieldTerrain"
    by simp
  have b: "- 2147483648 < sint (1::u32) \<and> sint (1::u32) < 2147483647" by simp
  have v: "SampleNormal realPlatform fieldTerrain 1 1 =
      vscale (Vector3 (- 60) 8 (- 90)) (1 / sqrt 11764)"
    by (simp add: SampleNormal_def SampleRaw_def clampInt_def compass_def slopeVector_def lean_def
        fieldTerrain_def newTerrain_def realPlatform_def vadd_def DotProduct_def Let_def)
  note t = GetNormal_is_EstimateNormal [of realPlatform fieldTerrain 1 1 "fieldTerrain\<lparr>occluder := True\<rparr>"]
  from t ok b have g: "GetNormal realPlatform fieldTerrain 1 1 =
      Some (SampleNormal realPlatform fieldTerrain (sint (1::u32)) (sint (1::u32)))"
    by blast
  have g': "GetNormal realPlatform fieldTerrain 1 1 =
      Some (vscale (Vector3 (- 60) 8 (- 90)) (1 / sqrt 11764))"
    using g v by simp
  from t have e: "GetNormal realPlatform fieldTerrain 1 1 = EstimateNormal realPlatform fieldTerrain 1 1"
    by blast
  from t same have c: "GetNormal realPlatform (fieldTerrain\<lparr>occluder := True\<rparr>) 1 1 =
      GetNormal realPlatform fieldTerrain 1 1"
    by blast
  show ?thesis using g' e c by simp
qed

text \<open>
  C7. For every requested patch size that is out of \<open>[4, 128]\<close> or not a power of two
  (5 and 200 are two), \<open>SetPatchSize\<close> and \<open>SetPatchSizeAttr\<close> return normally and leave
  the whole terrain state as it was.
\<close>

theorem SetPatchSize_invalid_noop:
  "\<not> (4 \<le> unat sz \<and> unat sz \<le> 128 \<and> (\<exists>k. unat sz = 2 ^ k)) \<Longrightarrow>
     SetPatchSize pf s sz = Some s \<and> SetPatchSizeAttr s sz = s"
proof -
  assume inv: "\<not> (4 \<le> unat sz \<and> unat sz \<le> 128 \<and> (\<exists>k. unat sz = 2 ^ k))"
  have "sz < MIN_PATCH_SIZE \<longleftrightarrow> unat sz < 4"
    by (simp add: MIN_PATCH_SIZE_def word_less_nat_alt)
  moreover have "sz > MAX_PATCH_SIZE \<longleftrightarrow> 128 < unat sz"
    by (simp add: MAX_PATCH_SIZE_def word_less_nat_alt)
  ultimately have "sz < MIN_PATCH_SIZE \<or> sz > MAX_PATCH_SIZE \<or> \<not> IsPowerOfTwo sz"
    using inv by (auto simp: IsPowerOfTwo_iff)
  then show ?thesis
    by (auto simp: SetPatchSize_def SetPatchSizeAttr_def)
qed

theorem SetPatchSize_invalid_noop_witness:
  "SetPatchSize realPlatform exampleTerrain 5 = Some exampleTerrain \<and>
   SetPatchSizeAttr exampleTerrain 5 = exampleTerrain \<and>
   SetPatchSize realPlatform exampleTerrain 200 = Some exampleTerrain \<and>
   SetPatchSizeAttr exampleTerrain 200 = exampleTerrain"
proof -
  have "\<not> IsPowerOfTwo (5::u32)" by code_simp
  then have five: "\<not> (4 \<le> unat (5::u32) \<and> unat (5::u32) \<le> 128 \<and> (\<exists>k. unat (5::u32) = 2 ^ k))"
    by (simp add: IsPowerOfTwo_iff)
  have big: "\<not> (4 \<le> unat (200::u32) \<and> unat (200::u32) \<le> 128 \<and> (\<exists>k. unat (200::u32) = 2 ^ k))"
    by simp
  show ?thesis
    using SetPatchSize_invalid_noop [OF five, of realPlatform exampleTerrain]
      SetPatchSize_invalid_noop [OF big, of realPlatform exampleTerrain]
    by simp
qed

text \<open>
  C10. \<open>SetOccludee e\<close> sets the occludee flag of every live patch to \<open>e\<close>, but the
  field of the terrain that it assigns is \<open>occluder\<close>: the stored occludee flag keeps its
  old value and the stored occluder flag becomes \<open>e\<close>.
\<close>

theorem SetOccludee_assigns_occluder:
  "occluder (SetOccludee s enable) = enable \<and>
   occludee (SetOccludee s enable) = occludee s \<and>
   (\<forall>a \<in> set (patches s). \<forall>p. a < length (patchObjects s) \<longrightarrow>
      patchObjects (SetOccludee s enable) ! a = Some p \<longrightarrow> patchOccludee p = enable)"
proof -
  have "\<forall>p. patchObjects (SetOccludee s enable) ! a = Some p \<longrightarrow> patchOccludee p = enable"
    if "a \<in> set (patches s)" "a < length (patchObjects s)" for a
    using forEachPatch_fold_live [where P = "\<lambda>p. patchOccludee p = enable"
        and f = "\<lambda>p. p\<lparr>patchOccludee := enable\<rparr>" and a = a and objs = "patchObjects s" and as = "patches s"] that
    by (simp add: SetOccludee_def MarkNetworkUpdate_def forEachPatch_def)
  then show ?thesis
    by (simp add: SetOccludee_def MarkNetworkUpdate_def forEachPatch_def)
qed

theorem SetOccludee_assigns_occluder_witness:
  "occludee (SetOccludee (newTerrain realPlatform (- 1) (- 1) (- 1) (- 1)) False) = True \<and>
   occluder (SetOccludee (newTerrain realPlatform (- 1) (- 1) (- 1) (- 1)) True) = True \<and>
   occluder (newTerrain realPlatform (- 1) (- 1) (- 1) (- 1)) = False"
  using SetOccludee_assigns_occluder [of "newTerrain realPlatform (- 1) (- 1) (- 1) (- 1)" False]
    SetOccludee_assigns_occluder [of "newTerrain realPlatform (- 1) (- 1) (- 1) (- 1)" True]
  by (simp add: newTerrain_def)



text \<open>
  C3 (amended). After a rebuild of an attached terrain with a valid patch size \<open>p\<close> and a
  well-formed height map, on a platform where the index buffer can be locked, the shared
  index buffer has the size \<open>p * p * 6\<close> and holds exactly that many 16-bit indices: the
  source's \<open>indexData p\<close>. The six indices of the cell \<open>(x, z)\<close> of the \<open>p\<close> by \<open>p\<close> grid
  stand at offset \<open>6 * (z * p + x)\<close> and are, with the row stride \<open>p + 1\<close> and with no
  truncation to 16 bits, \<open>(z + 1) * (p + 1) + x\<close>, \<open>z * (p + 1) + x + 1\<close>,
  \<open>z * (p + 1) + x\<close> and \<open>(z + 1) * (p + 1) + x\<close>, \<open>(z + 1) * (p + 1) + x + 1\<close>,
  \<open>z * (p + 1) + x + 1\<close>. Every patch refers to this one buffer with the draw range
  \<open>(0, p * p * 6)\<close>. The contents depend on the patch size only, but the buffer is written
  by every such rebuild, also when the patch size has not changed: the rebuild that follows
  writes it once more, with the same contents.
\<close>

theorem CreateGeometry_index_buffer:
  fixes s :: "('f::{zero,one,plus,minus,uminus,times,inverse,ord}) Terrain"
  assumes "validPatchSize (patchSize s)" and "wellFormedImage img" and "sceneConsistent s"
    and "node s = Some nd" and "heightMap s = Some img" and "lockIndexBuffer pf"
  shows "\<exists>s'. CreateGeometry pf s = Some s' \<and>
     unat (ibIndexCount (indexBuffer s')) = unat (patchSize s) * unat (patchSize s) * 6 \<and>
     ibData (indexBuffer s') = indexData (patchSize s) \<and>
     length (ibData (indexBuffer s')) = unat (patchSize s) * unat (patchSize s) * 6 \<and>
     (\<forall>x < unat (patchSize s). \<forall>z < unat (patchSize s).
        map unat (take 6 (drop (6 * (z * unat (patchSize s) + x)) (ibData (indexBuffer s')))) =
          [x + (z + 1) * (unat (patchSize s) + 1), x + z * (unat (patchSize s) + 1) + 1,
           x + z * (unat (patchSize s) + 1),
           x + (z + 1) * (unat (patchSize s) + 1), x + (z + 1) * (unat (patchSize s) + 1) + 1,
           x + z * (unat (patchSize s) + 1) + 1]) \<and>
     (\<forall>a \<in> set (patches s'). a < length (patchObjects s') \<and>
        (\<exists>q. patchObjects s' ! a = Some q \<and> geomIndexBuffer q = Some SharedIndexBuffer \<and>
             geomDrawRange q = (0, ibIndexCount (indexBuffer s')))) \<and>
     ibCommits (indexBuffer s') = ibCommits (indexBuffer s) + 1 \<and>
     (\<exists>s''. CreateGeometry pf s' = Some s'' \<and> patchSize s' = patchSize s \<and>
        patchSize s'' = patchSize s \<and>
        ibData (indexBuffer s'') = ibData (indexBuffer s') \<and>
        ibCommits (indexBuffer s'') = ibCommits (indexBuffer s') + 1)"
proof -
  let ?p = "patchSize s"
  from CreateGeometry_built [OF assms(4) assms(5) assms(1) assms(2) assms(3), of pf]
  obtain s1 where
    a: "CreateGeometry pf s = Some s1"
    and p1: "patchSize s1 = ?p"
    and per: "\<forall>a \<in> set (patches s1). a < length (patchObjects s1) \<and>
          (\<exists>q. patchObjects s1 ! a = Some q \<and>
               vbVertexCount q = (?p + 1) * (?p + 1) \<and>
               geomIndexBuffer q = Some SharedIndexBuffer \<and>
               geomDrawRange q = (0, ?p * ?p * 6) \<and>
               (lockVertexBuffer pf \<longrightarrow>
                  length (vbData q) = 12 * ((unat ?p + 1) * (unat ?p + 1))))"
    and ib: "indexBuffer s1 = (indexBuffer s)
          \<lparr>ibIndexCount := ?p * ?p * 6,
           ibData := (if lockIndexBuffer pf then indexData ?p else []),
           ibCommits := ibCommits (indexBuffer s) + (if lockIndexBuffer pf then 1 else 0)\<rparr>"
    and again: "CreateGeometry pf s1 =
        Some (s1\<lparr>indexBuffer := (indexBuffer s1)
                    \<lparr>ibCommits := ibCommits (indexBuffer s1) + (if lockIndexBuffer pf then 1 else 0)\<rparr>,
                  events := events s1 @ (if patches s1 \<noteq> [] then [E_TERRAINCREATED] else [])\<rparr>)"
    by blast
  have c: "ibIndexCount (indexBuffer s1) = ?p * ?p * 6" by (simp add: ib)
  have d: "ibData (indexBuffer s1) = indexData ?p" using assms(6) by (simp add: ib)
  have k: "ibCommits (indexBuffer s1) = ibCommits (indexBuffer s) + 1"
    using assms(6) by (simp add: ib)
  have cu: "unat (ibIndexCount (indexBuffer s1)) = unat ?p * unat ?p * 6"
    unfolding c by (rule row_unat(3) [OF assms(1)])
  have l: "length (ibData (indexBuffer s1)) = unat ?p * unat ?p * 6"
    unfolding d by (rule length_indexData)
  have cells: "\<forall>x < unat ?p. \<forall>z < unat ?p.
        map unat (take 6 (drop (6 * (z * unat ?p + x)) (ibData (indexBuffer s1)))) =
          [x + (z + 1) * (unat ?p + 1), x + z * (unat ?p + 1) + 1, x + z * (unat ?p + 1),
           x + (z + 1) * (unat ?p + 1), x + (z + 1) * (unat ?p + 1) + 1,
           x + z * (unat ?p + 1) + 1]"
  proof (intro allI impI)
    fix x z assume x: "x < unat ?p" and z: "z < unat ?p"
    show "map unat (take 6 (drop (6 * (z * unat ?p + x)) (ibData (indexBuffer s1)))) =
          [x + (z + 1) * (unat ?p + 1), x + z * (unat ?p + 1) + 1, x + z * (unat ?p + 1),
           x + (z + 1) * (unat ?p + 1), x + (z + 1) * (unat ?p + 1) + 1,
           x + z * (unat ?p + 1) + 1]"
      unfolding d indexData_cell [OF x z] by (rule cellIndices_unat [OF assms(1) x z])
  qed
  have per': "\<forall>a \<in> set (patches s1). a < length (patchObjects s1) \<and>
        (\<exists>q. patchObjects s1 ! a = Some q \<and> geomIndexBuffer q = Some SharedIndexBuffer \<and>
             geomDrawRange q = (0, ibIndexCount (indexBuffer s1)))"
    using per unfolding c by blast
  define s2 where "s2 = s1\<lparr>indexBuffer := (indexBuffer s1)
                    \<lparr>ibCommits := ibCommits (indexBuffer s1) + (if lockIndexBuffer pf then 1 else 0)\<rparr>,
                  events := events s1 @ (if patches s1 \<noteq> [] then [E_TERRAINCREATED] else [])\<rparr>"
  have b: "CreateGeometry pf s1 = Some s2" unfolding s2_def by (rule again)
  have s2_f: "patchSize s2 = ?p" "ibData (indexBuffer s2) = ibData (indexBuffer s1)"
    "ibCommits (indexBuffer s2) = ibCommits (indexBuffer s1) + 1"
    using assms(6) by (simp_all add: s2_def p1)
  have snd: "\<exists>s''. CreateGeometry pf s1 = Some s'' \<and> patchSize s1 = ?p \<and> patchSize s'' = ?p \<and>
        ibData (indexBuffer s'') = ibData (indexBuffer s1) \<and>
        ibCommits (indexBuffer s'') = ibCommits (indexBuffer s1) + 1"
    using b p1 s2_f by blast
  show ?thesis using a cu d l cells per' k snd by blast
qed

theorem CreateGeometry_index_buffer_witness:
  "\<exists>s'. CreateGeometry realPlatform exampleTerrain = Some s' \<and>
     unat (ibIndexCount (indexBuffer s')) = 96 \<and> length (ibData (indexBuffer s')) = 96 \<and>
     map unat (take 6 (drop 42 (ibData (indexBuffer s')))) = [13, 9, 8, 13, 14, 9] \<and>
     ibCommits (indexBuffer s') = 1"
proof -
  have vp: "validPatchSize (patchSize exampleTerrain)"
    by (simp add: exampleTerrain_fields validPatchSize_4)
  have lk: "lockIndexBuffer realPlatform" by (simp add: realPlatform_def)
  from CreateGeometry_index_buffer [OF vp wellFormedImage_example sceneConsistent_example
      exampleTerrain_fields(1) exampleTerrain_fields(2) lk]
  obtain s' where a: "CreateGeometry realPlatform exampleTerrain = Some s'"
    and c: "unat (ibIndexCount (indexBuffer s')) = unat (patchSize exampleTerrain) * unat (patchSize exampleTerrain) * 6"
    and l: "length (ibData (indexBuffer s')) = unat (patchSize exampleTerrain) * unat (patchSize exampleTerrain) * 6"
    and cells: "\<forall>x < unat (patchSize exampleTerrain). \<forall>z < unat (patchSize exampleTerrain).
        map unat (take 6 (drop (6 * (z * unat (patchSize exampleTerrain) + x)) (ibData (indexBuffer s')))) =
          [x + (z + 1) * (unat (patchSize exampleTerrain) + 1), x + z * (unat (patchSize exampleTerrain) + 1) + 1,
           x + z * (unat (patchSize exampleTerrain) + 1),
           x + (z + 1) * (unat (patchSize exampleTerrain) + 1), x + (z + 1) * (unat (patchSize exampleTerrain) + 1) + 1,
           x + z * (unat (patchSize exampleTerrain) + 1) + 1]"
    and k: "ibCommits (indexBuffer s') = ibCommits (indexBuffer exampleTerrain) + 1"
    by blast
  have "map unat (take 6 (drop 42 (ibData (indexBuffer s')))) = [13, 9, 8, 13, 14, 9]"
    using cells [rule_format, of 3 1] by (simp add: exampleTerrain_fields)
  then show ?thesis using a c l k by (simp add: exampleTerrain_fields)
qed

theorem index_buffer_rewritten:
  "\<exists>s1 s2. CreateGeometry realPlatform exampleTerrain = Some s1 \<and>
     CreateGeometry realPlatform s1 = Some s2 \<and>
     patchSize s1 = 4 \<and> patchSize s2 = 4 \<and>
     ibCommits (indexBuffer s1) = 1 \<and> ibCommits (indexBuffer s2) = 2"
proof -
  from example_twice obtain s1 where
    a: "CreateGeometry realPlatform exampleTerrain = Some s1"
    and p: "patchSize s1 = 4" and c: "ibCommits (indexBuffer s1) = 1"
    and b: "CreateGeometry realPlatform s1 =
        Some (s1\<lparr>indexBuffer := (indexBuffer s1)\<lparr>ibCommits := 2\<rparr>,
                  events := [E_TERRAINCREATED, E_TERRAINCREATED]\<rparr>)"
    by blast
  show ?thesis
    by (rule exI [of _ s1], rule exI, intro conjI, rule a, rule b) (simp_all add: p c)
qed

text \<open>
  C6. For every image, \<open>SetHeightMapInternal\<close> returns false exactly when the image is
  compressed. On a compressed image the call, and \<open>SetHeightMap\<close> with it, only writes
  the error to the log (and \<open>SetHeightMap\<close> marks a network update): the stored height
  map, the height field, the patches and their components, the pending-rebuild flag and the
  events stay as they were, so no rebuild is run or requested. On an image that is not
  compressed the call stores the image and returns true: with no immediate rebuild it
  always does and leaves the rebuild pending; with the immediate rebuild it does whenever
  the rebuild has a defined result, which it has for a valid patch size, a well-formed
  image and a consistent scene.
\<close>

theorem SetHeightMap_compressed_rejected:
  fixes s :: "('f::{zero,one,plus,minus,uminus,times,inverse,ord}) Terrain"
  shows
  "(imgCompressed img \<longrightarrow>
      SetHeightMapInternal pf s (Some img) recreateNow =
        Some (False, s\<lparr>errorLog := errorLog s @ [''Can not use a compressed image as a terrain heightmap'']\<rparr>) \<and>
      SetHeightMap pf s (Some img) =
        Some (False, s\<lparr>errorLog := errorLog s @ [''Can not use a compressed image as a terrain heightmap''],
                       networkUpdate := True\<rparr>)) \<and>
   (\<not> imgCompressed img \<longrightarrow>
      (\<exists>s'. SetHeightMapInternal pf s (Some img) False = Some (True, s') \<and>
            heightMap s' = Some img \<and> recreateTerrain s')) \<and>
   (\<not> imgCompressed img \<and> validPatchSize (patchSize s) \<and> wellFormedImage img \<and> sceneConsistent s \<longrightarrow>
      (\<exists>s'. SetHeightMapInternal pf s (Some img) True = Some (True, s') \<and> heightMap s' = Some img) \<and>
      (\<exists>s'. SetHeightMap pf s (Some img) = Some (True, s') \<and> heightMap s' = Some img)) \<and>
   (\<forall>ok s'. SetHeightMapInternal pf s (Some img) recreateNow = Some (ok, s') \<longrightarrow>
      ok = (\<not> imgCompressed img))"
proof (intro conjI impI allI)
  assume "imgCompressed img"
  then show i: "SetHeightMapInternal pf s (Some img) recreateNow =
        Some (False, s\<lparr>errorLog := errorLog s @ [''Can not use a compressed image as a terrain heightmap'']\<rparr>)"
    for recreateNow
    by (simp add: SetHeightMapInternal_def)
  show "SetHeightMap pf s (Some img) =
        Some (False, s\<lparr>errorLog := errorLog s @ [''Can not use a compressed image as a terrain heightmap''],
                       networkUpdate := True\<rparr>)"
    by (simp add: SetHeightMap_def i MarkNetworkUpdate_def)
next
  assume "\<not> imgCompressed img"
  then show "\<exists>s'. SetHeightMapInternal pf s (Some img) False = Some (True, s') \<and>
            heightMap s' = Some img \<and> recreateTerrain s'"
    by (simp add: SetHeightMapInternal_def Let_def)
next
  assume h: "\<not> imgCompressed img \<and> validPatchSize (patchSize s) \<and> wellFormedImage img \<and> sceneConsistent s"
  define t where "t = (case heightMap s of None \<Rightarrow> s
      | Some old \<Rightarrow> s\<lparr>reloadSubscriptions := removeAll old (reloadSubscriptions s)\<rparr>)"
  define u where "u = t\<lparr>reloadSubscriptions := List.insert img (reloadSubscriptions t),
                         heightMap := Some img\<rparr>"
  have tf: "node t = node s" "patchObjects t = patchObjects s" "patchSize t = patchSize s"
    by (simp_all add: t_def split: option.splits)
  have "sceneConsistent u"
    using h sceneConsistent_cong [of u s] by (simp add: u_def tf)
  then have "rebuildable u" using h by (simp add: rebuildable_def u_def tf)
  from CreateGeometry_rebuildable [OF this, of pf] obtain s1 where
    a: "CreateGeometry pf u = Some s1" and b: "heightMap s1 = heightMap u"
    by blast
  have e: "SetHeightMapInternal pf s (Some img) True = Some (True, s1)"
    using h a by (simp add: SetHeightMapInternal_def Let_def u_def t_def)
  have b': "heightMap s1 = Some img" using b by (simp add: u_def)
  show "\<exists>s'. SetHeightMapInternal pf s (Some img) True = Some (True, s') \<and> heightMap s' = Some img"
    using e b' by blast
  show "\<exists>s'. SetHeightMap pf s (Some img) = Some (True, s') \<and> heightMap s' = Some img"
    using b' by (simp add: SetHeightMap_def e MarkNetworkUpdate_def)
next
  fix ok s'
  assume "SetHeightMapInternal pf s (Some img) recreateNow = Some (ok, s')"
  then show "ok = (\<not> imgCompressed img)"
    by (auto simp: SetHeightMapInternal_def Let_def split: if_splits)
qed

theorem SetHeightMap_compressed_rejected_witness:
  "SetHeightMap realPlatform exampleTerrain (Some (exampleImage\<lparr>imgCompressed := True\<rparr>)) =
     Some (False, exampleTerrain\<lparr>errorLog := [''Can not use a compressed image as a terrain heightmap''],
                                 networkUpdate := True\<rparr>) \<and>
   (\<exists>s'. SetHeightMap realPlatform exampleTerrain (Some exampleImage) = Some (True, s') \<and>
         heightMap s' = Some exampleImage) \<and>
   (\<exists>s'. SetHeightMapInternal realPlatform exampleTerrain (Some exampleImage) False = Some (True, s') \<and>
         heightMap s' = Some exampleImage \<and> recreateTerrain s')"
proof -
  have el: "errorLog exampleTerrain = []" by (simp add: exampleTerrain_def newTerrain_def)
  have c: "imgCompressed (exampleImage\<lparr>imgCompressed := True\<rparr>)" by simp
  have n: "\<not> imgCompressed exampleImage" by (simp add: exampleImage_def)
  have vp: "validPatchSize (patchSize exampleTerrain)"
    by (simp add: exampleTerrain_fields validPatchSize_4)
  show ?thesis
    using SetHeightMap_compressed_rejected [where img = "exampleImage\<lparr>imgCompressed := True\<rparr>"
        and pf = realPlatform and s = exampleTerrain and recreateNow = True]
      SetHeightMap_compressed_rejected [where img = exampleImage
        and pf = realPlatform and s = exampleTerrain and recreateNow = True]
      c n vp wellFormedImage_example sceneConsistent_example
    by (simp add: el)
qed

text \<open>
  C8 (amended). A rebuild pass emits the terrain-created notification, once, if and only
  if the terrain is attached to a node and the number of patches is non-zero before the
  rebuild or after it: this holds of every rebuild pass that returns, and the pass returns
  on every terrain that can be rebuilt. So a rebuild that keeps a non-zero number of
  patches non-zero emits the notification too; only a rebuild from no patches to no
  patches, or of a terrain that is not attached, emits none.
\<close>

theorem CreateGeometry_event_rule:
  fixes s :: "('f::{zero,one,plus,minus,uminus,times,inverse,ord}) Terrain"
  shows "(rebuildable s \<longrightarrow> (\<exists>s'. CreateGeometry pf s = Some s')) \<and>
     (\<forall>s'. CreateGeometry pf s = Some s' \<longrightarrow>
        events s' = events s @
          (if node s \<noteq> None \<and> (patches s \<noteq> [] \<or> patches s' \<noteq> [])
           then [E_TERRAINCREATED] else []))"
proof (intro conjI impI allI)
  assume "rebuildable s"
  from CreateGeometry_rebuildable [OF this, of pf] show "\<exists>s'. CreateGeometry pf s = Some s'"
    by blast
next
  fix s' assume "CreateGeometry pf s = Some s'"
  then show "events s' = events s @
          (if node s \<noteq> None \<and> (patches s \<noteq> [] \<or> patches s' \<noteq> [])
           then [E_TERRAINCREATED] else [])"
    by (rule CreateGeometry_events)
qed

theorem CreateGeometry_event_rule_witness:
  "\<exists>s'. CreateGeometry realPlatform exampleTerrain = Some s' \<and> events s' = [E_TERRAINCREATED]"
proof -
  note r = CreateGeometry_event_rule [of exampleTerrain realPlatform]
  from r rebuildable_example obtain s' where
    a: "CreateGeometry realPlatform exampleTerrain = Some s'"
    by blast
  from r a have e: "events s' = events exampleTerrain @
       (if node exampleTerrain \<noteq> None \<and> (patches exampleTerrain \<noteq> [] \<or> patches s' \<noteq> [])
        then [E_TERRAINCREATED] else [])"
    by blast
  from example_twice a have "length (patches s') = 2" by auto
  then have "patches s' \<noteq> []" by auto
  with e have "events s' = [E_TERRAINCREATED]" by (simp add: exampleTerrain_fields)
  with a show ?thesis by blast
qed

theorem event_on_every_rebuild:
  "\<exists>s1 s2. CreateGeometry realPlatform exampleTerrain = Some s1 \<and>
     CreateGeometry realPlatform s1 = Some s2 \<and>
     length (patches s1) = 2 \<and> length (patches s2) = 2 \<and>
     events s2 = events s1 @ [E_TERRAINCREATED]"
proof -
  from example_twice obtain s1 where
    a: "CreateGeometry realPlatform exampleTerrain = Some s1"
    and l: "length (patches s1) = 2" and e: "events s1 = [E_TERRAINCREATED]"
    and b: "CreateGeometry realPlatform s1 =
        Some (s1\<lparr>indexBuffer := (indexBuffer s1)\<lparr>ibCommits := 2\<rparr>,
                  events := [E_TERRAINCREATED, E_TERRAINCREATED]\<rparr>)"
    by blast
  show ?thesis
    by (rule exI [of _ s1], rule exI, intro conjI, rule a, rule b) (simp_all add: l e)
qed

text \<open>
  C9. For every terrain that can be rebuilt, the rebuild pass returns, and a second rebuild
  pass right after it, with the configuration and the source image as the first one left
  them, returns a state with the same height-field data, the same patches with the same
  vertex data, and the same index data: the second state is the first one but for the
  events sent and the count of writes of the index buffer.
\<close>

theorem CreateGeometry_idempotent:
  fixes s :: "('f::{zero,one,plus,minus,uminus,times,inverse,ord}) Terrain"
  assumes "rebuildable s"
  shows "\<exists>s1 s2. CreateGeometry pf s = Some s1 \<and> CreateGeometry pf s1 = Some s2 \<and>
     heightMap s1 = heightMap s \<and> patchSize s1 = patchSize s \<and> spacing s1 = spacing s \<and>
     heightData s2 = heightData s1 \<and> node s2 = node s1 \<and> patches s2 = patches s1 \<and>
     patchObjects s2 = patchObjects s1 \<and>
     ibIndexCount (indexBuffer s2) = ibIndexCount (indexBuffer s1) \<and>
     ibData (indexBuffer s2) = ibData (indexBuffer s1) \<and>
     s2 = s1\<lparr>indexBuffer := indexBuffer s2, events := events s2\<rparr>"
proof -
  from CreateGeometry_rebuildable [OF assms, of pf] obtain s1 c e where
    a: "CreateGeometry pf s = Some s1"
    and f: "heightMap s1 = heightMap s" "patchSize s1 = patchSize s" "spacing s1 = spacing s"
    and b: "CreateGeometry pf s1 =
                Some (s1\<lparr>indexBuffer := (indexBuffer s1)\<lparr>ibCommits := c\<rparr>, events := e\<rparr>)"
    by blast
  define s2 where "s2 = s1\<lparr>indexBuffer := (indexBuffer s1)\<lparr>ibCommits := c\<rparr>, events := e\<rparr>"
  have b': "CreateGeometry pf s1 = Some s2" unfolding s2_def by (rule b)
  have g: "heightData s2 = heightData s1" "node s2 = node s1" "patches s2 = patches s1"
     "patchObjects s2 = patchObjects s1"
     "ibIndexCount (indexBuffer s2) = ibIndexCount (indexBuffer s1)"
     "ibData (indexBuffer s2) = ibData (indexBuffer s1)"
     "s2 = s1\<lparr>indexBuffer := indexBuffer s2, events := events s2\<rparr>"
    by (simp_all add: s2_def)
  show ?thesis using a b' f g by blast
qed

theorem CreateGeometry_idempotent_witness:
  "\<exists>s1 s2. CreateGeometry realPlatform exampleTerrain = Some s1 \<and>
     CreateGeometry realPlatform s1 = Some s2 \<and>
     heightData s2 = heightData s1 \<and> patches s2 = patches s1 \<and>
     patchObjects s2 = patchObjects s1 \<and>
     ibData (indexBuffer s2) = ibData (indexBuffer s1) \<and> length (patches s2) = 2"
proof -
  from CreateGeometry_idempotent [OF rebuildable_example, of realPlatform] obtain s1 s2 where
    a: "CreateGeometry realPlatform exampleTerrain = Some s1"
    and b: "CreateGeometry realPlatform s1 = Some s2"
    and g: "heightData s2 = heightData s1" "patches s2 = patches s1"
     "patchObjects s2 = patchObjects s1" "ibData (indexBuffer s2) = ibData (indexBuffer s1)"
    by blast
  from example_twice a have "length (patches s1) = 2" by auto
  then have "length (patches s2) = 2" using g by simp
  then show ?thesis using a b g by blast
qed

end
